theory Spec2Isabelle
  imports Main
begin

section \<open>Shared conventions\<close>

text \<open>
  A Go \<^verbatim>\<open>error\<close> is modelled by \<open>string option\<close>: \<open>None\<close> is \<^verbatim>\<open>nil\<close>, and
  \<open>Some s\<close> is an error whose \<^verbatim>\<open>Error()\<close> text (what \<^verbatim>\<open>%s\<close> prints) is \<open>s\<close>.
  A call returning \<^verbatim>\<open>(value, error)\<close> whose value is only read when the error is
  \<^verbatim>\<open>nil\<close> is a sum, \<open>Inl\<close> the error text.
\<close>

type_synonym error = "string option"

text \<open>The verb \<^verbatim>\<open>%d\<close> of \<^verbatim>\<open>fmt.Fprintf\<close> on a length: its decimal digits.\<close>

definition digit_char :: "nat \<Rightarrow> char" where
  "digit_char d = char_of (48 + d)"

fun decimal :: "nat \<Rightarrow> string" where
  "decimal n = (if n < 10 then [digit_char n] else decimal (n div 10) @ [digit_char (n mod 10)])"

declare decimal.simps [simp del]

section \<open>Resources (package resource, as catalog.go and module.go use it)\<close>

text \<open>
  Modelled from the spec: the package \<^verbatim>\<open>resource\<close> is not among the sources. Its state
  names are the strings the report lines print; \<open>State\<close> carries \<open>Want\<close>, \<open>Current\<close> and
  \<open>Update\<close>; a resource offers \<open>ResourceID\<close>, \<open>WantBefore\<close>, \<open>WantAfter\<close>, \<open>Evaluate\<close>,
  \<open>Create\<close>, \<open>Delete\<close> and \<open>Update\<close>.
\<close>

definition StatePresent :: string where "StatePresent = ''present''"
definition StateAbsent :: string where "StateAbsent = ''absent''"
definition StateRunning :: string where "StateRunning = ''running''"
definition StateStopped :: string where "StateStopped = ''stopped''"
definition StateUnknown :: string where "StateUnknown = ''unknown''"

record State =
  Want :: string
  Current :: string
  Update :: bool

text \<open>
  The four operations of a resource act on the managed system, a state of type \<open>'w\<close>
  that each call reads and returns changed. The method \<^verbatim>\<open>Update\<close> is the field
  \<open>UpdateR\<close> (the name \<open>Update\<close> is the field of \<open>State\<close>).
\<close>

record 'w Resource =
  ResourceID :: string
  WantBefore :: "string list"
  WantAfter :: "string list"
  Evaluate :: "'w \<Rightarrow> (string + State) \<times> 'w"
  Create :: "'w \<Rightarrow> error \<times> 'w"
  Delete :: "'w \<Rightarrow> error \<times> 'w"
  UpdateR :: "'w \<Rightarrow> error \<times> 'w"

section \<open>Modules (module.go)\<close>

text \<open>
  Lines 19 to 40. The fields \<^verbatim>\<open>Name\<close> and \<^verbatim>\<open>Path\<close> of an import are \<open>ImportName\<close> and
  \<open>ImportPath\<close> (\<open>Name\<close> is the field of a module).
\<close>

record Import =
  ImportName :: string
  ImportPath :: string

record 'w Module =
  Name :: string
  Resources :: "'w Resource list"
  Imports :: "Import list"
  UnknownKeys :: "string list"

section \<open>The catalog run (catalog.go, Run)\<close>

text \<open>
  \<open>Config\<close>: the field \<^verbatim>\<open>ModuleConfig\<close> only supplies the module path and the writer;
  the writer is the \<open>Fprintf\<close> events below.
\<close>

record Config =
  Main :: string
  DryRun :: bool

record 'w Catalog =
  CModules :: "'w Module list"
  CResources :: "'w Resource list"
  CConfig :: Config

text \<open>
  What \<^verbatim>\<open>Run\<close> does, in order: a line it writes to the writer, or a call of a
  resource's operation with the error the call returned. What an operation of a
  resource writes to the same writer is part of that operation's effect on the managed
  system, and is not among these events.
\<close>

datatype operation = OpEvaluate | OpCreate | OpDelete | OpUpdate

datatype event =
  Fprintf string
| Call operation string error

text \<open>The format strings of \<^verbatim>\<open>Run\<close>.\<close>

definition line_loaded :: "nat \<Rightarrow> nat \<Rightarrow> string" where
  "line_loaded nr nm =
     ''Loaded '' @ decimal nr @ '' resources from '' @ decimal nm @ '' modules\<newline>''"

definition line_error :: "string \<Rightarrow> string \<Rightarrow> string" where
  "line_error rid err = rid @ '' '' @ err @ ''\<newline>''"

definition line_is_should :: "string \<Rightarrow> string \<Rightarrow> string \<Rightarrow> string" where
  "line_is_should rid cur want = rid @ '' is '' @ cur @ '', should be '' @ want @ ''\<newline>''"

definition line_unknown :: "string \<Rightarrow> string \<Rightarrow> string \<Rightarrow> string" where
  "line_unknown rid want cur =
     rid @ '' unknown state(s): want '' @ want @ '', current '' @ cur @ ''\<newline>''"

definition line_out_of_date :: "string \<Rightarrow> string" where
  "line_out_of_date rid = rid @ '' resource is out of date, will be updated\<newline>''"

text \<open>
  Lines 78 to 88: what follows the \<^verbatim>\<open>switch\<close> when it did not \<^verbatim>\<open>continue\<close>.
  \<open>resourceErr\<close> is printed when set; then \<^verbatim>\<open>Update\<close> is called when the state asks
  for it, and its error printed.
\<close>

definition after_switch ::
  "'w Resource \<Rightarrow> State \<Rightarrow> error \<Rightarrow> event list \<times> 'w \<Rightarrow> event list \<times> 'w" where
  "after_switch r state resourceErr s =
     (let rid = ResourceID r;
          tr1 = (case resourceErr of
                   None \<Rightarrow> fst s
                 | Some e \<Rightarrow> fst s @ [Fprintf (line_error rid e)])
      in if Update state then
           (case UpdateR r (snd s) of
              (None, w') \<Rightarrow>
                (tr1 @ [Fprintf (line_out_of_date rid), Call OpUpdate rid None], w')
            | (Some e, w') \<Rightarrow>
                (tr1 @ [Fprintf (line_out_of_date rid), Call OpUpdate rid (Some e),
                        Fprintf (line_error rid e)], w'))
         else (tr1, snd s))"

text \<open>
  Lines 56 to 76: the \<^verbatim>\<open>switch\<close>, its cases tried in the source's order. It gives
  the events of the chosen case and how the case ends: \<open>None\<close> is the \<^verbatim>\<open>continue\<close> of the
  \<^verbatim>\<open>default\<close> case, \<open>Some (resourceErr, w)\<close> leaves the \<^verbatim>\<open>switch\<close> for line 78.
\<close>

definition life_switch ::
  "'w Resource \<Rightarrow> State \<Rightarrow> 'w \<Rightarrow> event list \<times> (error \<times> 'w) option" where
  "life_switch r state w =
     (let rid = ResourceID r in
      if Want state = Current state then ([], Some (None, w))
      else if Want state = StatePresent \<or> Want state = StateRunning then
        (if Current state = StateAbsent \<or> Current state = StateStopped then
           (case Create r w of
              (resourceErr, w') \<Rightarrow>
                ([Fprintf (line_is_should rid (Current state) (Want state)),
                  Call OpCreate rid resourceErr], Some (resourceErr, w')))
         else ([], Some (None, w)))
      else if Want state = StateAbsent \<or> Want state = StateStopped then
        (if Current state = StatePresent \<or> Current state = StateRunning then
           (case Delete r w of
              (resourceErr, w') \<Rightarrow>
                ([Fprintf (line_is_should rid (Current state) (Want state)),
                  Call OpDelete rid resourceErr], Some (resourceErr, w')))
         else ([], Some (None, w)))
      else ([Fprintf (line_unknown rid (Want state) (Current state))], None))"

text \<open>
  Lines 42 to 88: the body of the loop for one resource, on the events so far and the
  managed system.
\<close>

definition run_resource :: "bool \<Rightarrow> 'w Resource \<Rightarrow> event list \<times> 'w \<Rightarrow> event list \<times> 'w" where
  "run_resource dry r s =
     (let rid = ResourceID r in
      case Evaluate r (snd s) of
        (Inl err, w1) \<Rightarrow>
          (fst s @ [Call OpEvaluate rid (Some err), Fprintf (line_error rid err)], w1)
      | (Inr state, w1) \<Rightarrow>
          (let tr1 = fst s @ [Call OpEvaluate rid None] in
           if dry then (tr1, w1)
           else
             (case life_switch r state w1 of
                (evs, None) \<Rightarrow> (tr1 @ evs, w1)
              | (evs, Some (resourceErr, w2)) \<Rightarrow>
                  after_switch r state resourceErr (tr1 @ evs, w2))))"

text \<open>Line 41: the loop over \<^verbatim>\<open>c.Resources\<close>.\<close>

fun run_loop :: "bool \<Rightarrow> 'w Resource list \<Rightarrow> event list \<times> 'w \<Rightarrow> event list \<times> 'w" where
  "run_loop dry [] s = s"
| "run_loop dry (r # rs) s = run_loop dry rs (run_resource dry r s)"

text \<open>
  \<^verbatim>\<open>Run\<close>: the returned error, the events in order, and the managed system afterwards.
\<close>

definition Run :: "'w Catalog \<Rightarrow> 'w \<Rightarrow> error \<times> event list \<times> 'w" where
  "Run c w =
     (case run_loop (DryRun (CConfig c)) (CResources c)
             ([Fprintf (line_loaded (length (CResources c)) (length (CModules c)))], w) of
        (tr, w') \<Rightarrow> (None, tr, w'))"

text \<open>The resources on which an operation was called, in the order of the calls.\<close>

definition calls :: "operation \<Rightarrow> event list \<Rightarrow> string list" where
  "calls p tr =
     concat (map (\<lambda>e. case e of Fprintf _ \<Rightarrow> [] | Call q rid _ \<Rightarrow> (if q = p then [rid] else [])) tr)"

text \<open>
  Every failed call in the events is followed at once by the line that reports its error.
\<close>

definition errors_reported :: "event list \<Rightarrow> bool" where
  "errors_reported tr =
     (\<forall>i < length tr. \<forall>p rid e. tr ! i = Call p rid (Some e) \<longrightarrow>
        Suc i < length tr \<and> tr ! Suc i = Fprintf (line_error rid e))"

section \<open>Graphs (package graph, as module.go and catalog.go use it)\<close>

text \<open>
  Modelled from the spec: the package \<^verbatim>\<open>graph\<close> is not among the sources. A graph is a
  set of string-keyed nodes and a set of directed edges; adding a node again changes
  nothing, adding an edge again changes nothing, and an edge to or from a node the graph
  does not hold is refused (an error, which both callers in module.go discard). A node
  is identified with its name, so \<^verbatim>\<open>nodes[n]\<close> in module.go is \<open>n\<close>: the map
  \<^verbatim>\<open>nodes\<close> has a node for every key of the module map, and \<^verbatim>\<open>DiscoverAndLoad\<close>
  stores every module under its own name.
\<close>

record Graph =
  GraphNodes :: "string set"
  GraphEdges :: "(string \<times> string) set"

definition NewGraph :: Graph where
  "NewGraph = \<lparr>GraphNodes = {}, GraphEdges = {}\<rparr>"

definition GetNode :: "Graph \<Rightarrow> string \<Rightarrow> bool" where
  "GetNode g n = (n \<in> GraphNodes g)"

definition AddNode :: "Graph \<Rightarrow> string \<Rightarrow> Graph" where
  "AddNode g n = g\<lparr>GraphNodes := insert n (GraphNodes g)\<rparr>"

definition AddEdge :: "Graph \<Rightarrow> string \<Rightarrow> string \<Rightarrow> Graph" where
  "AddEdge g a b =
     (if a \<in> GraphNodes g \<and> b \<in> GraphNodes g then g\<lparr>GraphEdges := insert (a, b) (GraphEdges g)\<rparr> else g)"

section \<open>The import graph (module.go, ImportGraph)\<close>

text \<open>
  The map \<^verbatim>\<open>modules\<close> that \<^verbatim>\<open>DiscoverAndLoad\<close> returns is the list of its entries;
  \<^verbatim>\<open>modules[n]\<close> is \<open>map_of modules n\<close>. \<^verbatim>\<open>DiscoverAndLoad\<close> itself is not among the
  sources: its result (an error, or the map) is an argument.
\<close>

type_synonym 'w modules = "(string \<times> 'w Module) list"

definition missing_import :: "string \<Rightarrow> string \<Rightarrow> string" where
  "missing_import m x = ''Module '' @ m @ '' imports '' @ x @ '', which is not in the module path''"

definition main_not_found :: "string \<Rightarrow> string" where
  "main_not_found main = ''Module '' @ main @ '' not found in module path''"

text \<open>
  Lines 205 to 227: the recursive closure \<^verbatim>\<open>buildImportGraphFunc\<close>, on the graph it
  mutates, and its loop over \<^verbatim>\<open>m.Imports\<close>. The first argument bounds the depth of the
  recursion (\<open>None\<close>: the bound was too small); \<open>ImportGraph_returns\<close> below shows that
  the bound \<open>ImportGraph\<close> passes always suffices. As in line 220, the error of the
  recursive call is dropped: only its graph is kept.
\<close>

fun buildImportGraphFunc ::
      "nat \<Rightarrow> 'w modules \<Rightarrow> 'w Module \<Rightarrow> Graph \<Rightarrow> (Graph \<times> error) option"
  and build_imports ::
      "nat \<Rightarrow> 'w modules \<Rightarrow> 'w Module \<Rightarrow> Import list \<Rightarrow> Graph \<Rightarrow> (Graph \<times> error) option"
where
  "buildImportGraphFunc 0 modules m g = None"
| "buildImportGraphFunc (Suc k) modules m g =
     (if \<not> GetNode g (Name m) then build_imports k modules m (Imports m) (AddNode g (Name m))
      else Some (g, None))"
| "build_imports k modules m [] g = Some (g, None)"
| "build_imports k modules m (mi # rest) g =
     (case map_of modules (ImportName mi) of
        None \<Rightarrow> Some (g, Some (missing_import (Name m) (ImportName mi)))
      | Some imported \<Rightarrow>
          (case buildImportGraphFunc k modules imported g of
             None \<Rightarrow> None
           | Some (g', _) \<Rightarrow>
               build_imports k modules m rest (AddEdge g' (Name m) (ImportName mi))))"

definition ImportGraph :: "string \<Rightarrow> string + 'w modules \<Rightarrow> (Graph \<times> error) option" where
  "ImportGraph main discovered =
     (case discovered of
        Inl err \<Rightarrow> Some (NewGraph, Some err)
      | Inr modules \<Rightarrow>
          (case map_of modules main of
             None \<Rightarrow> Some (NewGraph, Some (main_not_found main))
           | Some m \<Rightarrow> buildImportGraphFunc (Suc (length modules)) modules m NewGraph))"

section \<open>The resource collection (module.go, ResourceCollection)\<close>

text \<open>
  A \<^verbatim>\<open>ResourceMap\<close> is the list of its entries, in the order they were stored;
  \<^verbatim>\<open>resourceMap[id]\<close> is \<open>map_of\<close>. \<^verbatim>\<open>moduleMap[id]\<close> of a missing key is the empty string.
\<close>

type_synonym 'w ResourceMap = "(string \<times> 'w Resource) list"

definition duplicate_resource :: "string \<Rightarrow> string \<Rightarrow> string \<Rightarrow> string" where
  "duplicate_resource rid m prev =
     ''Duplicate resource '' @ rid @ '' in '' @ m @ '', previous declaration was in '' @ prev"

text \<open>Lines 265 to 272: the inner loop, over the resources of the module named \<open>mname\<close>.\<close>

fun collect_resources ::
  "string \<Rightarrow> 'w Resource list \<Rightarrow> (string \<rightharpoonup> string) \<times> 'w ResourceMap \<Rightarrow>
     ((string \<rightharpoonup> string) \<times> 'w ResourceMap) \<times> error" where
  "collect_resources mname [] s = (s, None)"
| "collect_resources mname (r # rs) s =
     (let rid = ResourceID r in
      case map_of (snd s) rid of
        Some _ \<Rightarrow>
          (s, Some (duplicate_resource rid mname (case fst s rid of None \<Rightarrow> [] | Some p \<Rightarrow> p)))
      | None \<Rightarrow> collect_resources mname rs ((fst s)(rid \<mapsto> mname), snd s @ [(rid, r)]))"

text \<open>Line 264: the outer loop, over the modules.\<close>

fun collect_modules ::
  "'w Module list \<Rightarrow> (string \<rightharpoonup> string) \<times> 'w ResourceMap \<Rightarrow>
     ((string \<rightharpoonup> string) \<times> 'w ResourceMap) \<times> error" where
  "collect_modules [] s = (s, None)"
| "collect_modules (m # ms) s =
     (case collect_resources (Name m) (Resources m) s of
        (s', Some e) \<Rightarrow> (s', Some e)
      | (s', None) \<Rightarrow> collect_modules ms s')"

definition ResourceCollection :: "'w Module list \<Rightarrow> 'w ResourceMap \<times> error" where
  "ResourceCollection modules =
     (case collect_modules modules (Map.empty, []) of ((moduleMap, resourceMap), err) \<Rightarrow>
        (resourceMap, err))"

text \<open>
  The declarations of a list of modules, in the order the two loops visit them: the
  declaring module's name and the resource.
\<close>

definition declarations :: "'w Module list \<Rightarrow> (string \<times> 'w Resource) list" where
  "declarations ms = concat (map (\<lambda>m. map (\<lambda>r. (Name m, r)) (Resources m)) ms)"

section \<open>The resource dependency graph (module.go, ResourceCollectionGraph)\<close>

text \<open>
  The argument is the map's entries in the order the \<^verbatim>\<open>range\<close> of line 292 visits them
  (Go fixes no order; the theorems hold for every order).
\<close>

definition missing_target :: "string \<Rightarrow> string \<Rightarrow> string" where
  "missing_target name dep = ''Resource '' @ name @ '' wants '' @ dep @ '', which does not exist''"

text \<open>Lines 297 to 303.\<close>

fun connect_after :: "'w ResourceMap \<Rightarrow> string \<Rightarrow> string list \<Rightarrow> Graph \<Rightarrow> Graph \<times> error" where
  "connect_after resources name [] g = (g, None)"
| "connect_after resources name (dep # deps) g =
     (case map_of resources dep of
        None \<Rightarrow> (g, Some (missing_target name dep))
      | Some _ \<Rightarrow> connect_after resources name deps (AddEdge g name dep))"

text \<open>Lines 306 to 312.\<close>

fun connect_before :: "'w ResourceMap \<Rightarrow> string \<Rightarrow> string list \<Rightarrow> Graph \<Rightarrow> Graph \<times> error" where
  "connect_before resources name [] g = (g, None)"
| "connect_before resources name (dep # deps) g =
     (case map_of resources dep of
        None \<Rightarrow> (g, Some (missing_target name dep))
      | Some _ \<Rightarrow> connect_before resources name deps (AddEdge g dep name))"

text \<open>Lines 292 to 313: the loop that connects the nodes.\<close>

fun connect_resources ::
  "'w ResourceMap \<Rightarrow> (string \<times> 'w Resource) list \<Rightarrow> Graph \<Rightarrow> Graph \<times> error" where
  "connect_resources resources [] g = (g, None)"
| "connect_resources resources ((name, r) # rest) g =
     (case connect_after resources name (WantAfter r) g of
        (g1, Some e) \<Rightarrow> (g1, Some e)
      | (g1, None) \<Rightarrow>
          (case connect_before resources name (WantBefore r) g1 of
             (g2, Some e) \<Rightarrow> (g2, Some e)
           | (g2, None) \<Rightarrow> connect_resources resources rest g2))"

definition ResourceCollectionGraph :: "'w ResourceMap \<Rightarrow> Graph \<times> error" where
  "ResourceCollectionGraph resources =
     connect_resources resources resources (foldl AddNode NewGraph (map fst resources))"

text \<open>The edges the wants of a resource map ask for, and whether every target is there.\<close>

definition wanted_edges :: "'w ResourceMap \<Rightarrow> (string \<times> string) set" where
  "wanted_edges resources =
     (\<Union>(name, r) \<in> set resources.
        (\<lambda>dep. (name, dep)) ` set (WantAfter r) \<union> (\<lambda>dep. (dep, name)) ` set (WantBefore r))"

definition targets_present :: "'w ResourceMap \<Rightarrow> bool" where
  "targets_present resources =
     list_all (\<lambda>(name, r). set (WantAfter r @ WantBefore r) \<subseteq> fst ` set resources) resources"

section \<open>Loading a catalog (catalog.go, Load)\<close>

text \<open>
  What \<^verbatim>\<open>Load\<close> takes from outside the sources: the result of \<^verbatim>\<open>DiscoverAndLoad\<close>
  (the same for both calls, lines 105 and 183), \<^verbatim>\<open>Sort\<close> of the package graph (an
  error, or the names of the nodes in order), and the order in which the \<^verbatim>\<open>range\<close> of
  the dependency graph visits the resource map. \<^verbatim>\<open>collection.DependencyGraph()\<close> of
  line 131 is \<open>ResourceCollectionGraph\<close>.
\<close>

record 'w environment =
  DiscoverAndLoad :: "string + 'w modules"
  graph_Sort :: "Graph \<Rightarrow> string + string list"
  range_order :: "'w ResourceMap \<Rightarrow> 'w ResourceMap"

text \<open>
  A call returns, panics, or does not return. \<^verbatim>\<open>modules[node.Name]\<close> of a missing
  name is a nil module, on which \<^verbatim>\<open>ResourceCollection\<close> panics (line 265).
  \<^verbatim>\<open>collection[node.Name]\<close> of a missing name is a nil resource, on which \<^verbatim>\<open>Run\<close>
  would panic (line 42): a catalog here holds resources only, so that panic is
  reported by \<open>Load\<close>.
\<close>

datatype 'a outcome = Return 'a | Panic | NoReturn

text \<open>Lines 120 to 122 and 141 to 143: the values of a list of names in a map.\<close>

fun lookup_all :: "(string \<times> 'a) list \<Rightarrow> string list \<Rightarrow> 'a list option" where
  "lookup_all kvs [] = Some []"
| "lookup_all kvs (n # ns) =
     (case map_of kvs n of
        None \<Rightarrow> None
      | Some v \<Rightarrow> (case lookup_all kvs ns of None \<Rightarrow> None | Some vs \<Rightarrow> Some (v # vs)))"

text \<open>Lines 124 to 145: from the sorted modules on.\<close>

definition load_resources :: "'w environment \<Rightarrow> 'w Catalog \<Rightarrow> ('w Catalog \<times> error) outcome" where
  "load_resources env c =
     (case ResourceCollection (CModules c) of
        (collection, Some err) \<Rightarrow> Return (c, Some err)
      | (collection, None) \<Rightarrow>
          (case ResourceCollectionGraph (range_order env collection) of
             (collectionGraph, Some err) \<Rightarrow> Return (c, Some err)
           | (collectionGraph, None) \<Rightarrow>
               (case graph_Sort env collectionGraph of
                  Inl err \<Rightarrow> Return (c, Some err)
                | Inr collectionSorted \<Rightarrow>
                    (case lookup_all collection collectionSorted of
                       None \<Rightarrow> Panic
                     | Some rs \<Rightarrow> Return (c\<lparr>CResources := rs\<rparr>, None)))))"

text \<open>Lines 105 to 122: the modules of the import graph, sorted.\<close>

definition load_modules :: "Config \<Rightarrow> 'w environment \<Rightarrow> (string + 'w Module list) outcome" where
  "load_modules config env =
     (case DiscoverAndLoad env of
        Inl err \<Rightarrow> Return (Inl err)
      | Inr modules \<Rightarrow>
          (case ImportGraph (Main config) (DiscoverAndLoad env) of
             None \<Rightarrow> NoReturn
           | Some (modulesGraph, Some err) \<Rightarrow> Return (Inl err)
           | Some (modulesGraph, None) \<Rightarrow>
               (case graph_Sort env modulesGraph of
                  Inl err \<Rightarrow> Return (Inl err)
                | Inr modulesSorted \<Rightarrow>
                    (case lookup_all modules modulesSorted of
                       None \<Rightarrow> Panic
                     | Some ms \<Rightarrow> Return (Inr ms)))))"

definition Load :: "Config \<Rightarrow> 'w environment \<Rightarrow> ('w Catalog \<times> error) outcome" where
  "Load config env =
     (let c = \<lparr>CModules = [], CResources = [], CConfig = config\<rparr> in
      case load_modules config env of
        NoReturn \<Rightarrow> NoReturn
      | Panic \<Rightarrow> Panic
      | Return (Inl err) \<Rightarrow> Return (c, Some err)
      | Return (Inr ms) \<Rightarrow> load_resources env (c\<lparr>CModules := ms\<rparr>))"

section \<open>The minion (minion/etcd.go)\<close>

text \<open>
  Modelled from the spec: \<^verbatim>\<open>MinionTask\<close>, \<^verbatim>\<open>MinionClassifier\<close> and
  \<^verbatim>\<open>NewSimpleClassifier\<close> are not among the sources. A task has the eight fields of
  the spec's data model (\<open>TaskID\<close> is the UUID in its canonical text, which is what
  \<^verbatim>\<open>%s\<close> and \<^verbatim>\<open>String()\<close> give; the times are epoch seconds, which the
  source only stores). A classifier
  answers \<^verbatim>\<open>GetKey\<close>, \<^verbatim>\<open>GetDescription\<close> and \<^verbatim>\<open>GetValue\<close>, each with a string and
  an error; a simple classifier is the three strings.
\<close>

record MinionTask =
  TaskID :: string
  Command :: string
  Args :: "string list"
  IsConcurrent :: bool
  TimeReceived :: int
  TimeProcessed :: int
  Result :: string
  Error :: string

record MinionClassifier =
  GetKey :: "string \<times> error"
  GetDescription :: "string \<times> error"
  GetValue :: "string \<times> error"

record SimpleClassifier =
  ClassifierKey :: string
  ClassifierDescription :: string
  ClassifierValue :: string

definition NewSimpleClassifier :: "string \<Rightarrow> string \<Rightarrow> string \<Rightarrow> SimpleClassifier" where
  "NewSimpleClassifier key description val =
     \<lparr>ClassifierKey = key, ClassifierDescription = description, ClassifierValue = val\<rparr>"

text \<open>Lines 24 to 45: the minion (its \<^verbatim>\<open>kapi\<close> is the store, seen through the events).\<close>

record etcdMinion =
  minion_name :: string
  rootDir :: string
  queueDir :: string
  logDir :: string
  classifierDir :: string
  minion_id :: string

text \<open>
  The etcd client: a node of a response (\<open>Nodes\<close> are its children), a watch response,
  and the calls on \<^verbatim>\<open>KeysAPI\<close> with the options the source sets:
  \<open>Kapi_Get key Recursive Sort\<close>, \<open>Kapi_Set key value PrevExist TTL\<close> (the TTL in
  seconds, \<open>0\<close> when the source sets none), \<open>Kapi_Delete key\<close>,
  \<open>Kapi_Watcher key Recursive\<close>.
\<close>

datatype Node = EtcdNode (Key: string) (Value: string) (Nodes: "Node list")

record Response =
  Action :: string
  Node :: Node

datatype PrevExistType = PrevIgnore | PrevExist | PrevNoExist

datatype kapi_call =
  Kapi_Get string bool bool
| Kapi_Set string string PrevExistType nat
| Kapi_Delete string
| Kapi_Watcher string bool

definition Hour :: nat where
  "Hour = 3600"

text \<open>
  What the minion does, in order: a call on the store, a task sent on the channel
  (\<open>None\<close> is a nil pointer), a line of the log, the child command run, or the panic of a
  nil dereference. A send on the channel is an event only when a receiver takes it: the
  channel of \<^verbatim>\<open>Serve\<close> is unbuffered (line 332), so a send with no receiver blocks,
  and the sender does nothing after it.
\<close>

datatype mevent =
  Kapi kapi_call
| Send "MinionTask option"
| Log string
| Exec string "string list"
| NilDereference

text \<open>
  What the minion takes from outside the sources: the JSON codec (\<^verbatim>\<open>json.Unmarshal\<close>
  into a task pointer gives an error, or the pointer, nil for the document
  \<^verbatim>\<open>null\<close>), \<^verbatim>\<open>filepath.Join\<close>, the error of \<^verbatim>\<open>kapi.Set\<close> on a key and a value,
  the child command (its merged output and its error) and the clock.
\<close>

record world =
  json_Unmarshal :: "string \<Rightarrow> string + MinionTask option"
  json_Marshal_task :: "MinionTask \<Rightarrow> string + string"
  json_Marshal_classifier :: "SimpleClassifier \<Rightarrow> string + string"
  filepath_Join :: "string \<Rightarrow> string \<Rightarrow> string"
  kapi_Set_error :: "string \<Rightarrow> string \<Rightarrow> error"
  cmd_Run :: "string \<Rightarrow> string list \<Rightarrow> string \<times> error"
  time_Now :: int

text \<open>Lines 205 to 214.\<close>

definition EtcdUnmarshalTask :: "world \<Rightarrow> Node \<Rightarrow> mevent list \<times> (string + MinionTask option)" where
  "EtcdUnmarshalTask wd node =
     (case json_Unmarshal wd (Value node) of
        Inl err \<Rightarrow> ([Log (''Invalid task '' @ Key node @ '': '' @ err @ ''\<newline>'')], Inl err)
      | Inr task \<Rightarrow> ([], Inr task))"

text \<open>
  Lines 119 to 128: the loop over the backlog. \<open>ready\<close> is the number of sends that a
  receiver of the channel takes while the loop runs. The send of line 127 returns when
  a receiver takes the task; with none left it blocks for ever (\<open>NoReturn\<close>), after the
  entry was deleted, and the entries behind it are not visited.
\<close>

fun drain_backlog :: "world \<Rightarrow> nat \<Rightarrow> Node list \<Rightarrow> unit outcome \<times> mevent list" where
  "drain_backlog wd ready [] = (Return (), [])"
| "drain_backlog wd ready (node # backlog) =
     (case EtcdUnmarshalTask wd node of
        (logs, Inl err) \<Rightarrow>
          (case drain_backlog wd ready backlog of
             (r, evs) \<Rightarrow> (r, logs @ [Kapi (Kapi_Delete (Key node))] @ evs))
      | (logs, Inr task) \<Rightarrow>
          (case ready of
             0 \<Rightarrow> (NoReturn, logs @ [Kapi (Kapi_Delete (Key node))])
           | Suc left \<Rightarrow>
               (case drain_backlog wd left backlog of
                  (r, evs) \<Rightarrow> (r, logs @ [Kapi (Kapi_Delete (Key node)), Send task] @ evs))))"

text \<open>
  Lines 100 to 131: \<^verbatim>\<open>checkQueue\<close>, on the result of \<^verbatim>\<open>kapi.Get\<close> (an error, or
  \<^verbatim>\<open>resp.Node\<close>) and the number of sends the channel's receivers take. It returns nil
  on each of its three return paths, or it does not return.
\<close>

definition checkQueue ::
  "world \<Rightarrow> etcdMinion \<Rightarrow> nat \<Rightarrow> string + Node \<Rightarrow> error outcome \<times> mevent list" where
  "checkQueue wd m ready got =
     (let get = Kapi (Kapi_Get (queueDir m) True True) in
      case got of
        Inl err \<Rightarrow> (Return None, [get])
      | Inr node \<Rightarrow>
          (let backlog = Nodes node in
           if length backlog = 0 then (Return None, [get])
           else
             (case drain_backlog wd ready backlog of
                (r, evs) \<Rightarrow>
                  (case r of Return u \<Rightarrow> Return None | Panic \<Rightarrow> Panic | NoReturn \<Rightarrow> NoReturn,
                   [get, Log (''Found '' @ decimal (length backlog) @ '' tasks in backlog'')] @
                   evs))))"

text \<open>
  Lines 332 and 333 of \<^verbatim>\<open>Serve\<close>: the channel is made, unbuffered, and \<^verbatim>\<open>checkQueue\<close>
  is called on it at once. The task listener and the task runner, the only receiver,
  are started afterwards (lines 335 and 336), when \<^verbatim>\<open>checkQueue\<close> has returned: while
  it runs no send is taken.
\<close>

definition Serve_checkQueue :: "world \<Rightarrow> etcdMinion \<Rightarrow> string + Node \<Rightarrow> error outcome \<times> mevent list" where
  "Serve_checkQueue wd m got = checkQueue wd m 0 got"

text \<open>
  \<^verbatim>\<open>strings.ToLower\<close> and \<^verbatim>\<open>strings.EqualFold\<close> on the bytes of a string: only the
  letters A to Z have another case here. (No rune outside ASCII folds to a letter of
  \<^verbatim>\<open>delete\<close>, so the test of line 279 is decided by these.)
\<close>

definition to_lower :: "char \<Rightarrow> char" where
  "to_lower c =
     (if 65 \<le> (of_char c :: nat) \<and> (of_char c :: nat) \<le> 90 then char_of (of_char c + 32 :: nat)
      else c)"

definition ToLower :: "string \<Rightarrow> string" where
  "ToLower s = map to_lower s"

definition EqualFold :: "string \<Rightarrow> string \<Rightarrow> bool" where
  "EqualFold s t = (map to_lower s = map to_lower t)"

text \<open>
  Lines 270 to 294: the loop of \<^verbatim>\<open>TaskListener\<close>, on the results of
  \<^verbatim>\<open>watcher.Next\<close> it has taken so far (an error, or a response). The loop never
  returns; the events of a longer list of results extend those of a shorter one, unless
  a nil task made line 291 panic. The listener runs beside the task runner (lines 335
  and 336), which receives on the channel for ever: a send of the listener is taken.
\<close>

fun listen :: "world \<Rightarrow> (string + Response) list \<Rightarrow> mevent list" where
  "listen wd [] = []"
| "listen wd (Inl err # rest) =
     Log (''Failed to read task: '' @ err @ ''\<newline>'') # listen wd rest"
| "listen wd (Inr resp # rest) =
     (let action = ToLower (Action resp) in
      if EqualFold action ''delete'' then listen wd rest
      else
        (case EtcdUnmarshalTask wd (Node resp) of
           (logs, Inl err) \<Rightarrow> logs @ [Kapi (Kapi_Delete (Key (Node resp)))] @ listen wd rest
         | (logs, Inr None) \<Rightarrow> logs @ [Kapi (Kapi_Delete (Key (Node resp))), NilDereference]
         | (logs, Inr (Some task)) \<Rightarrow>
             logs @ [Kapi (Kapi_Delete (Key (Node resp))),
                     Log (''Received task '' @ TaskID task @ ''\<newline>''),
                     Send (Some task)] @ listen wd rest))"

definition TaskListener :: "world \<Rightarrow> etcdMinion \<Rightarrow> (string + Response) list \<Rightarrow> mevent list" where
  "TaskListener wd m results = Kapi (Kapi_Watcher (queueDir m) True) # listen wd results"

text \<open>Lines 180 to 202.\<close>

definition saveTask :: "world \<Rightarrow> etcdMinion \<Rightarrow> MinionTask \<Rightarrow> error \<times> mevent list" where
  "saveTask wd m t =
     (let taskKey = filepath_Join wd (logDir m) (TaskID t) in
      case json_Marshal_task wd t of
        Inl err \<Rightarrow>
          (Some err, [Log (''Failed to serialize task '' @ TaskID t @ '': '' @ err @ ''\<newline>'')])
      | Inr data \<Rightarrow>
          (case kapi_Set_error wd taskKey data of
             Some err \<Rightarrow>
               (Some err,
                [Kapi (Kapi_Set taskKey data PrevIgnore 0),
                 Log (''Failed to save task '' @ TaskID t @ '': '' @ err @ ''\<newline>'')])
           | None \<Rightarrow> (None, [Kapi (Kapi_Set taskKey data PrevIgnore 0)])))"

text \<open>
  Lines 155 to 177: \<^verbatim>\<open>processTask\<close> gives the command's error, the events, and the
  task as it has changed it. The deferred \<^verbatim>\<open>saveTask\<close> runs last, on the changed task.
\<close>

definition processTask :: "world \<Rightarrow> etcdMinion \<Rightarrow> MinionTask \<Rightarrow> error \<times> mevent list \<times> MinionTask" where
  "processTask wd m t =
     (case cmd_Run wd (Command t) (Args t) of
        (output, cmdError) \<Rightarrow>
          (let t1 = t\<lparr>TimeProcessed := time_Now wd, Result := output\<rparr>;
               t2 = (case cmdError of None \<Rightarrow> t1 | Some e \<Rightarrow> t1\<lparr>Error := e\<rparr>);
               outcome_line =
                 (case cmdError of
                    None \<Rightarrow> Log (''Finished processing task '' @ TaskID t @ ''\<newline>'')
                  | Some e \<Rightarrow> Log (''Failed to process task '' @ TaskID t @ ''\<newline>''))
           in (cmdError,
               [Log (''Processing task '' @ TaskID t @ ''\<newline>''),
                Exec (Command t) (Args t), outcome_line] @ snd (saveTask wd m t2),
               t2)))"

text \<open>
  Lines 227 to 261: \<^verbatim>\<open>SetClassifier\<close>. The three getters assign the same variable
  \<^verbatim>\<open>err\<close>; the test of line 239 reads what the last one left.
\<close>

definition SetClassifier :: "world \<Rightarrow> etcdMinion \<Rightarrow> MinionClassifier \<Rightarrow> error \<times> mevent list" where
  "SetClassifier wd m c =
     (case GetKey c of (key, err) \<Rightarrow>
      case GetDescription c of (description, err) \<Rightarrow>
      case GetValue c of (val, err) \<Rightarrow>
        (case err of
           Some e \<Rightarrow> (Some e, [])
         | None \<Rightarrow>
             (let klassifier = NewSimpleClassifier key description val in
              case json_Marshal_classifier wd klassifier of
                Inl e \<Rightarrow> (Some e, [Log (''Failed to serialize classifier: '' @ key @ ''\<newline>'')])
              | Inr data \<Rightarrow>
                  (let klassifierKey = filepath_Join wd (classifierDir m) key in
                   case kapi_Set_error wd klassifierKey data of
                     Some e \<Rightarrow>
                       (Some e,
                        [Kapi (Kapi_Set klassifierKey data PrevIgnore Hour),
                         Log (''Failed to set classifier '' @ key @ '': '' @ e @ ''\<newline>'')])
                   | None \<Rightarrow> (None, [Kapi (Kapi_Set klassifierKey data PrevIgnore Hour)])))))"

text \<open>Projections of the minion's events.\<close>

definition sends :: "mevent list \<Rightarrow> MinionTask option list" where
  "sends evs = concat (map (\<lambda>e. case e of Send t \<Rightarrow> [t] | _ \<Rightarrow> []) evs)"

definition deletes :: "mevent list \<Rightarrow> string list" where
  "deletes evs = concat (map (\<lambda>e. case e of Kapi (Kapi_Delete k) \<Rightarrow> [k] | _ \<Rightarrow> []) evs)"

section \<open>Auxiliary definitions of the proofs\<close>

text \<open>
  Helpers of the proofs about \<open>Run\<close>: the events are settled when every failed call is
  reported and the last event is not a failed call still to be reported; the line an
  error adds; the events lines 83 to 88 add.
\<close>

definition settled :: "event list \<Rightarrow> bool" where
  "settled tr =
     (errors_reported tr \<and> (tr = [] \<or> (\<forall>p rid e. last tr \<noteq> Call p rid (Some e))))"

definition error_line :: "string \<Rightarrow> error \<Rightarrow> event list" where
  "error_line rid err = (case err of None \<Rightarrow> [] | Some e \<Rightarrow> [Fprintf (line_error rid e)])"

definition update_events :: "'w Resource \<Rightarrow> State \<Rightarrow> 'w \<Rightarrow> event list" where
  "update_events r st w =
     (if Update st then
        [Fprintf (line_out_of_date (ResourceID r)),
         Call OpUpdate (ResourceID r) (fst (UpdateR r w))] @
        error_line (ResourceID r) (fst (UpdateR r w))
      else [])"

text \<open>
  Helpers of the proofs about the dependency graph: the edges one entry asks for, and
  whether its targets are keys of the map.
\<close>

definition entry_edges :: "string \<times> 'w Resource \<Rightarrow> (string \<times> string) set" where
  "entry_edges e =
     (\<lambda>dep. (fst e, dep)) ` set (WantAfter (snd e)) \<union> (\<lambda>dep. (dep, fst e)) ` set (WantBefore (snd e))"

definition entry_ok :: "'w ResourceMap \<Rightarrow> string \<times> 'w Resource \<Rightarrow> bool" where
  "entry_ok resources e = (set (WantAfter (snd e) @ WantBefore (snd e)) \<subseteq> fst ` set resources)"

fun collect_declarations ::
  "(string \<times> 'w Resource) list \<Rightarrow> (string \<rightharpoonup> string) \<times> 'w ResourceMap \<Rightarrow>
     ((string \<rightharpoonup> string) \<times> 'w ResourceMap) \<times> error" where
  "collect_declarations [] s = (s, None)"
| "collect_declarations ((mname, r) # ds) s =
     (case map_of (snd s) (ResourceID r) of
        Some _ \<Rightarrow>
          (s, Some (duplicate_resource (ResourceID r) mname
                 (case fst s (ResourceID r) of None \<Rightarrow> [] | Some p \<Rightarrow> p)))
      | None \<Rightarrow> collect_declarations ds ((fst s)(ResourceID r \<mapsto> mname), snd s @ [(ResourceID r, r)]))"

text \<open>The state of the two maps after the declarations \<open>seen\<close> were stored.\<close>

definition stored :: "(string \<times> 'w Resource) list \<Rightarrow> (string \<rightharpoonup> string) \<times> 'w ResourceMap \<Rightarrow> bool" where
  "stored seen s =
     (distinct (map (\<lambda>d. ResourceID (snd d)) seen) \<and>
      snd s = map (\<lambda>d. (ResourceID (snd d), snd d)) seen \<and>
      (\<forall>d \<in> set seen. fst s (ResourceID (snd d)) = Some (fst d)))"

text \<open>The module names the closure can still add to the graph.\<close>

definition remaining :: "'w modules \<Rightarrow> Graph \<Rightarrow> nat" where
  "remaining modules g = card ((Name \<circ> snd) ` set modules - GraphNodes g)"

text \<open>The tasks the entries of a backlog decode to, in the order of the entries.\<close>

definition decoded :: "world \<Rightarrow> Node list \<Rightarrow> MinionTask option list" where
  "decoded wd entries =
     concat (map (\<lambda>n. case json_Unmarshal wd (Value n) of Inl err \<Rightarrow> [] | Inr task \<Rightarrow> [task])
       entries)"

text \<open>The entries of a backlog up to the first one that decodes, that one included.\<close>

fun until_decoded :: "world \<Rightarrow> Node list \<Rightarrow> Node list" where
  "until_decoded wd [] = []"
| "until_decoded wd (n # ns) =
     (case json_Unmarshal wd (Value n) of
        Inl err \<Rightarrow> n # until_decoded wd ns
      | Inr task \<Rightarrow> [n])"

text \<open>
  In the events of the backlog drain, every send comes right after the deletion of the
  entry that decoded to the task sent.
\<close>

definition delete_precedes_send :: "world \<Rightarrow> Node list \<Rightarrow> mevent list \<Rightarrow> bool" where
  "delete_precedes_send wd entries evs =
     (\<forall>i < length evs. \<forall>task. evs ! i = Send task \<longrightarrow>
        0 < i \<and>
        (\<exists>n \<in> set entries. evs ! (i - 1) = Kapi (Kapi_Delete (Key n)) \<and>
           json_Unmarshal wd (Value n) = Inr task))"

text \<open>The test of line 279 on a response, and the results of the watch that pass it.\<close>

definition is_delete :: "Response \<Rightarrow> bool" where
  "is_delete resp = EqualFold (ToLower (Action resp)) ''delete''"

definition not_delete :: "(string + Response) list \<Rightarrow> (string + Response) list" where
  "not_delete results = filter (\<lambda>r. case r of Inl err \<Rightarrow> True | Inr resp \<Rightarrow> \<not> is_delete resp) results"

text \<open>
  In the events of the listener, every send comes after the deletion of the key of a
  response that is not a delete and decoded to the task sent, with the line of the log
  between them.
\<close>

definition delete_precedes_publish :: "world \<Rightarrow> (string + Response) list \<Rightarrow> mevent list \<Rightarrow> bool" where
  "delete_precedes_publish wd results evs =
     (\<forall>i < length evs. \<forall>task. evs ! i = Send task \<longrightarrow>
        2 \<le> i \<and>
        (\<exists>resp. Inr resp \<in> set results \<and> \<not> is_delete resp \<and>
           json_Unmarshal wd (Value (Node resp)) = Inr task \<and>
           evs ! (i - 2) = Kapi (Kapi_Delete (Key (Node resp)))))"

text \<open>
  No response that the listener does not skip decodes, without error, to a nil task.
\<close>

definition no_nil_task :: "world \<Rightarrow> (string + Response) list \<Rightarrow> bool" where
  "no_nil_task wd results =
     list_all (\<lambda>r. case r of
                 Inl err \<Rightarrow> True
               | Inr resp \<Rightarrow> is_delete resp \<or> json_Unmarshal wd (Value (Node resp)) \<noteq> Inr None)
       results"

text \<open>
  The keys of the responses the listener does not skip, and the tasks they decode to,
  in the order of the responses.
\<close>

definition handled_keys :: "(string + Response) list \<Rightarrow> string list" where
  "handled_keys results =
     concat (map (\<lambda>r. case r of
                    Inl err \<Rightarrow> []
                  | Inr resp \<Rightarrow> (if is_delete resp then [] else [Key (Node resp)]))
       results)"

definition handled_tasks :: "world \<Rightarrow> (string + Response) list \<Rightarrow> MinionTask option list" where
  "handled_tasks wd results =
     concat (map (\<lambda>r. case r of
                    Inl err \<Rightarrow> []
                  | Inr resp \<Rightarrow>
                      (if is_delete resp then []
                       else (case json_Unmarshal wd (Value (Node resp)) of
                               Inl err \<Rightarrow> []
                             | Inr task \<Rightarrow> [task])))
       results)"

text \<open>The task as \<open>processTask\<close> leaves it.\<close>

definition processed :: "world \<Rightarrow> MinionTask \<Rightarrow> MinionTask" where
  "processed wd t =
     t\<lparr>TimeProcessed := time_Now wd,
       Result := fst (cmd_Run wd (Command t) (Args t)),
       Error := (case snd (cmd_Run wd (Command t) (Args t)) of None \<Rightarrow> Error t | Some e \<Rightarrow> e)\<rparr>"

section \<open>Concrete inputs\<close>

text \<open>
  The inputs at which the theorems below are evaluated. The managed system of the
  resources here is \<open>unit\<close>: their operations answer the same whenever they are called.
\<close>

text \<open>A resource whose operations always answer the same, and a catalog of such resources.\<close>

definition fixed_resource ::
  "string \<Rightarrow> (string + State) \<Rightarrow> error \<Rightarrow> error \<Rightarrow> error \<Rightarrow> unit Resource" where
  "fixed_resource rid ev cr de up =
     \<lparr>ResourceID = rid, WantBefore = [], WantAfter = [],
      Evaluate = (\<lambda>w. (ev, w)), Create = (\<lambda>w. (cr, w)),
      Delete = (\<lambda>w. (de, w)), UpdateR = (\<lambda>w. (up, w))\<rparr>"

definition catalog_of :: "bool \<Rightarrow> unit Resource list \<Rightarrow> unit Catalog" where
  "catalog_of dry rs =
     \<lparr>CModules = [], CResources = rs, CConfig = \<lparr>Main = ''main'', DryRun = dry\<rparr>\<rparr>"

definition nginx :: "unit Resource" where
  "nginx = fixed_resource ''package[nginx]''
     (Inr \<lparr>Want = StatePresent, Current = StateAbsent, Update = False\<rparr>) None None None"

definition drifting :: "unit Resource" where
  "drifting = fixed_resource ''service[nginx]''
     (Inr \<lparr>Want = StatePresent, Current = StateUnknown, Update = True\<rparr>) None None None"

definition misdeclared :: "unit Resource" where
  "misdeclared = fixed_resource ''service[cron]''
     (Inr \<lparr>Want = ''enabled'', Current = StateStopped, Update = True\<rparr>) None None None"

definition unreadable :: "unit Resource" where
  "unreadable = fixed_resource ''file[a]'' (Inl ''boom'') None None None"

definition unwritable :: "unit Resource" where
  "unwritable = fixed_resource ''package[b]''
     (Inr \<lparr>Want = StatePresent, Current = StateAbsent, Update = True\<rparr>)
     (Some ''no space'') None (Some ''denied'')"

definition wanting :: "string \<Rightarrow> string list \<Rightarrow> string list \<Rightarrow> unit Resource" where
  "wanting rid bs as =
     (fixed_resource rid (Inl ''unused'') None None None)\<lparr>WantBefore := bs, WantAfter := as\<rparr>"

definition chain_resources :: "unit ResourceMap" where
  "chain_resources =
     [(''A'', wanting ''A'' [] [''B'']), (''B'', wanting ''B'' [] [''C'']),
      (''C'', wanting ''C'' [''A''] [])]"

definition dangling_resources :: "unit ResourceMap" where
  "dangling_resources = [(''A'', wanting ''A'' [] [''Z''])]"

definition module_of :: "string \<Rightarrow> unit Resource list \<Rightarrow> string list \<Rightarrow> unit Module" where
  "module_of n rs names =
     \<lparr>Name = n, Resources = rs,
      Imports = map (\<lambda>i. \<lparr>ImportName = i, ImportPath = i @ ''.hcl''\<rparr>) names,
      UnknownKeys = []\<rparr>"

text \<open>\<open>main\<close> imports \<open>a\<close>, and \<open>a\<close> imports \<open>x\<close>, which is not in the module path.\<close>

definition transitive_modules :: "unit modules" where
  "transitive_modules =
     [(''main'', module_of ''main'' [] [''a'']), (''a'', module_of ''a'' [] [''x''])]"

definition transitive_environment :: "unit environment" where
  "transitive_environment =
     \<lparr>DiscoverAndLoad = Inr transitive_modules,
      graph_Sort = (\<lambda>g. Inr (if ''main'' \<in> GraphNodes g then [''a'', ''main''] else [])),
      range_order = (\<lambda>rm. rm)\<rparr>"

text \<open>\<open>m1\<close> and \<open>m2\<close> both declare \<open>package[nginx]\<close>; \<open>m2\<close> imports \<open>m1\<close>.\<close>

definition duplicate_modules :: "unit modules" where
  "duplicate_modules =
     [(''m1'', module_of ''m1'' [nginx] []), (''m2'', module_of ''m2'' [nginx] [''m1''])]"

definition duplicate_environment :: "unit environment" where
  "duplicate_environment =
     \<lparr>DiscoverAndLoad = Inr duplicate_modules,
      graph_Sort = (\<lambda>g. Inr (if ''m2'' \<in> GraphNodes g then [''m1'', ''m2''] else [])),
      range_order = (\<lambda>rm. rm)\<rparr>"

definition echo_task :: MinionTask where
  "echo_task =
     \<lparr>TaskID = ''6ba7b810-9dad-11d1-80b4-00c04fd430c8'', Command = ''echo'', Args = [''hello''],
      IsConcurrent = False, TimeReceived = 0, TimeProcessed = 0, Result = [], Error = []\<rparr>"

text \<open>
  A world whose decoder knows one task and the document \<^verbatim>\<open>null\<close>, whose encoders join
  the fields they are given, whose store accepts every write, and where only
  \<^verbatim>\<open>echo\<close> succeeds.
\<close>

definition test_world :: world where
  "test_world =
     \<lparr>json_Unmarshal =
        (\<lambda>s. if s = ''echo'' then Inr (Some echo_task)
             else if s = ''null'' then Inr None
             else Inl ''invalid character''),
      json_Marshal_task = (\<lambda>t. Inr (TaskID t @ '':'' @ Result t @ '':'' @ Error t)),
      json_Marshal_classifier = (\<lambda>c. Inr (ClassifierKey c @ ''='' @ ClassifierValue c)),
      filepath_Join = (\<lambda>d f. d @ ''/'' @ f),
      kapi_Set_error = (\<lambda>k v. None),
      cmd_Run = (\<lambda>c as. if c = ''echo'' then (concat as, None) else ([], Some ''exit status 1'')),
      time_Now = 1446336000\<rparr>"

definition test_minion :: etcdMinion where
  "test_minion =
     \<lparr>minion_name = ''kevin'', rootDir = ''/gru/minion/id'', queueDir = ''/gru/minion/id/queue'',
      logDir = ''/gru/minion/id/log'', classifierDir = ''/gru/minion/id/classifier'',
      minion_id = ''id''\<rparr>"

text \<open>A queue that holds two tasks.\<close>

definition backlog_node :: Node where
  "backlog_node =
     EtcdNode ''/gru/minion/id/queue'' []
       [EtcdNode ''/gru/minion/id/queue/t1'' ''echo'' [],
        EtcdNode ''/gru/minion/id/queue/t2'' ''echo'' []]"

definition created :: Response where
  "created = \<lparr>Action = ''create'', Node = EtcdNode ''/gru/minion/id/queue/t1'' ''echo'' []\<rparr>"

definition deleted :: Response where
  "deleted = \<lparr>Action = ''delete'', Node = EtcdNode ''/gru/minion/id/queue/t1'' [] []\<rparr>"

definition garbled :: Response where
  "garbled = \<lparr>Action = ''set'', Node = EtcdNode ''/gru/minion/id/queue/t0'' ''garbage'' []\<rparr>"

definition null_set :: Response where
  "null_set = \<lparr>Action = ''set'', Node = EtcdNode ''/gru/minion/id/queue/t9'' ''null'' []\<rparr>"

definition flaky_classifier :: MinionClassifier where
  "flaky_classifier =
     \<lparr>GetKey = (''os'', Some ''no key''),
      GetDescription = (''Operating system'', Some ''no description''),
      GetValue = (''linux'', None)\<rparr>"

section \<open>The catalog run: every error is reported and the loop goes on\<close>

lemma settled_Fprintf: "settled tr \<Longrightarrow> settled (tr @ [Fprintf l])"
  unfolding settled_def errors_reported_def
  by (auto simp: nth_append less_Suc_eq last_conv_nth)

lemma settled_ok: "settled tr \<Longrightarrow> settled (tr @ [Call p rid None])"
  unfolding settled_def errors_reported_def
  by (auto simp: nth_append less_Suc_eq last_conv_nth)

lemma settled_err:
  "settled tr \<Longrightarrow> settled (tr @ [Call p rid (Some e), Fprintf (line_error rid e)])"
  unfolding settled_def errors_reported_def
  by (auto simp: nth_append less_Suc_eq last_conv_nth)

lemma settled_call: "settled tr \<Longrightarrow> settled (tr @ [Call p rid err] @ error_line rid err)"
  by (cases err) (simp_all add: settled_ok settled_err error_line_def)

lemma after_switch_events:
  "after_switch r st err (tr, w) =
     (tr @ error_line (ResourceID r) err @ update_events r st w,
      if Update st then snd (UpdateR r w) else w)"
  by (cases "UpdateR r w"; cases err; cases "fst (UpdateR r w)")
     (simp_all add: after_switch_def update_events_def error_line_def Let_def)

lemma update_events_settled: "settled tr \<Longrightarrow> settled (tr @ update_events r st w)"
  using settled_call [OF settled_Fprintf, of tr "line_out_of_date (ResourceID r)"
      OpUpdate "ResourceID r" "fst (UpdateR r w)"]
  by (simp add: update_events_def)

lemma life_switch_settled:
  assumes "settled tr" and "life_switch r st w = (evs, ex)"
  shows "settled (tr @ evs @
           (case ex of None \<Rightarrow> [] | Some (err, w') \<Rightarrow> error_line (ResourceID r) err))"
proof -
  have act: "settled (tr @ [Fprintf l, Call p (ResourceID r) err] @ error_line (ResourceID r) err)"
    for l p err
    using settled_call [OF settled_Fprintf [OF assms(1)], of l p "ResourceID r" err] by simp
  have unk: "settled (tr @ [Fprintf l])" for l
    using assms(1) by (rule settled_Fprintf)
  have none: "error_line (ResourceID r) None = []" by (simp add: error_line_def)
  show ?thesis
    using assms act unk none
    by (auto simp: life_switch_def Let_def split: if_splits prod.splits)
qed

lemma run_resource_settled:
  assumes "settled tr"
  shows "settled (fst (run_resource dry r (tr, w)))"
proof (cases "Evaluate r w")
  case (Pair ev w1)
  show ?thesis
  proof (cases ev)
    case (Inl err)
    then show ?thesis using Pair settled_err [OF assms, of OpEvaluate "ResourceID r" err]
      by (simp add: run_resource_def Let_def)
  next
    case (Inr st)
    let ?t1 = "tr @ [Call OpEvaluate (ResourceID r) None]"
    have t1: "settled ?t1" using assms by (rule settled_ok)
    show ?thesis
    proof (cases dry)
      case True
      then show ?thesis using Pair Inr t1 by (simp add: run_resource_def Let_def)
    next
      case False
      obtain evs ex where sw: "life_switch r st w1 = (evs, ex)" by (cases "life_switch r st w1")
      note s = life_switch_settled [OF t1 sw]
      show ?thesis
      proof (cases ex)
        case None
        then show ?thesis using Pair Inr False sw s by (simp add: run_resource_def Let_def)
      next
        case (Some a)
        obtain err w2 where a: "a = (err, w2)" by (cases a)
        have "settled ((?t1 @ evs @ error_line (ResourceID r) err) @ update_events r st w2)"
          using s Some a by (intro update_events_settled) simp
        then show ?thesis using Pair Inr False sw Some a
          by (simp add: run_resource_def Let_def after_switch_events)
      qed
    qed
  qed
qed

lemma run_loop_settled: "settled (fst s) \<Longrightarrow> settled (fst (run_loop dry rs s))"
proof (induction rs arbitrary: s)
  case Nil
  then show ?case by simp
next
  case (Cons r rs)
  have "settled (fst (run_resource dry r s))"
    using run_resource_settled [OF Cons.prems, of dry r "snd s"] by simp
  then show ?case using Cons.IH by simp
qed

lemma calls_append: "calls p (xs @ ys) = calls p xs @ calls p ys"
  by (simp add: calls_def)

lemma calls_simps:
  "calls p [] = []"
  "calls p (Fprintf l # es) = calls p es"
  "calls p (Call q rid err # es) = (if q = p then rid # calls p es else calls p es)"
  by (simp_all add: calls_def)

lemma calls_error_line: "calls p (error_line rid err) = []"
  by (cases err) (simp_all add: error_line_def calls_simps)

lemma calls_Evaluate_update_events: "calls OpEvaluate (update_events r st w) = []"
  by (simp add: update_events_def calls_simps calls_append calls_error_line)

lemma calls_Evaluate_life_switch: "calls OpEvaluate (fst (life_switch r st w)) = []"
  by (simp add: life_switch_def Let_def calls_simps split: prod.splits)

lemma run_resource_evaluates:
  "calls OpEvaluate (fst (run_resource dry r (tr, w))) = calls OpEvaluate tr @ [ResourceID r]"
proof (cases "Evaluate r w")
  case (Pair ev w1)
  show ?thesis
  proof (cases ev)
    case (Inl err)
    then show ?thesis using Pair
      by (simp add: run_resource_def Let_def calls_append calls_simps)
  next
    case (Inr st)
    obtain evs ex where sw: "life_switch r st w1 = (evs, ex)" by (cases "life_switch r st w1")
    have evs: "calls OpEvaluate evs = []"
      using calls_Evaluate_life_switch [of r st w1] sw by simp
    show ?thesis using Pair Inr sw evs
      by (cases ex)
         (auto simp: run_resource_def Let_def calls_append calls_simps after_switch_events
            calls_error_line calls_Evaluate_update_events)
  qed
qed

lemma run_loop_evaluates:
  "calls OpEvaluate (fst (run_loop dry rs s)) = calls OpEvaluate (fst s) @ map ResourceID rs"
proof (induction rs arbitrary: s)
  case Nil
  then show ?case by simp
next
  case (Cons r rs)
  show ?case
    using Cons.IH [of "run_resource dry r s"] run_resource_evaluates [of dry r "fst s" "snd s"]
    by simp
qed

text \<open>
  Claim C6. For every list of resources, an error returned by \<open>Evaluate\<close>, \<open>Create\<close>,
  \<open>Delete\<close> or \<open>Update\<close> during a catalog run is written to the writer (the line follows
  the failed call at once) and the loop goes on: every resource of the catalog is
  evaluated, in order, whatever failed before it. \<open>Run\<close> itself returns no error.
\<close>

theorem Run_reports_errors_and_goes_on:
  "fst (Run c w) = None \<and>
   errors_reported (fst (snd (Run c w))) \<and>
   calls OpEvaluate (fst (snd (Run c w))) = map ResourceID (CResources c)"
proof -
  let ?init = "([Fprintf (line_loaded (length (CResources c)) (length (CModules c)))], w)"
  let ?fin = "run_loop (DryRun (CConfig c)) (CResources c) ?init"
  have run: "Run c w = (None, fst ?fin, snd ?fin)"
    by (simp add: Run_def split: prod.splits)
  have "settled []" by (simp add: settled_def errors_reported_def)
  then have "settled (fst ?init)" using settled_Fprintf [of "[]"] by simp
  then have "settled (fst ?fin)" by (rule run_loop_settled)
  then have rep: "errors_reported (fst ?fin)" by (simp add: settled_def)
  have ev: "calls OpEvaluate (fst ?fin) = map ResourceID (CResources c)"
    by (simp add: run_loop_evaluates calls_simps)
  show ?thesis using run rep ev by simp
qed

text \<open>
  A run over a resource that cannot be evaluated and one whose \<open>Create\<close> and \<open>Update\<close>
  fail: the failed evaluation is followed by its line, and both resources are evaluated.
\<close>

theorem Run_reports_errors_and_goes_on_witness:
  "fst (Run (catalog_of False [unreadable, unwritable]) ()) = None \<and>
   fst (snd (Run (catalog_of False [unreadable, unwritable]) ())) ! 1 =
     Call OpEvaluate ''file[a]'' (Some ''boom'') \<and>
   fst (snd (Run (catalog_of False [unreadable, unwritable]) ())) ! 2 =
     Fprintf ''file[a] boom\<newline>'' \<and>
   calls OpEvaluate (fst (snd (Run (catalog_of False [unreadable, unwritable]) ()))) =
     [''file[a]'', ''package[b]'']"
proof -
  let ?tr = "fst (snd (Run (catalog_of False [unreadable, unwritable]) ()))"
  have len: "1 < length ?tr" by code_simp
  have at: "?tr ! 1 = Call OpEvaluate ''file[a]'' (Some ''boom'')" by code_simp
  have ids: "map ResourceID (CResources (catalog_of False [unreadable, unwritable])) =
      [''file[a]'', ''package[b]'']" by code_simp
  have line: "line_error ''file[a]'' ''boom'' = ''file[a] boom\<newline>''" by code_simp
  note inst = Run_reports_errors_and_goes_on [of "catalog_of False [unreadable, unwritable]" "()"]
  from inst have "errors_reported ?tr" by simp
  with len at have "?tr ! Suc 1 = Fprintf (line_error ''file[a]'' ''boom'')"
    unfolding errors_reported_def by blast
  then have "?tr ! 2 = Fprintf ''file[a] boom\<newline>''"
    by (simp add: line numeral_2_eq_2)
  then show ?thesis using inst at ids by simp
qed

text \<open>
  In a dry run no resource is created, deleted or updated.
\<close>

lemma run_resource_DryRun:
  "p \<noteq> OpEvaluate \<Longrightarrow> calls p (fst (run_resource True r (tr, w))) = calls p tr"
  by (cases "Evaluate r w")
     (simp add: run_resource_def Let_def calls_append calls_simps split: sum.splits)

lemma run_loop_DryRun:
  "p \<noteq> OpEvaluate \<Longrightarrow> calls p (fst (run_loop True rs s)) = calls p (fst s)"
proof (induction rs arbitrary: s)
  case Nil
  then show ?case by simp
next
  case (Cons r rs)
  show ?case
    using Cons.IH [OF Cons.prems, of "run_resource True r s"]
      run_resource_DryRun [OF Cons.prems, of r "fst s" "snd s"]
    by simp
qed

lemma Run_DryRun_no_actuation:
  assumes "DryRun (CConfig c)"
  shows "calls OpCreate (fst (snd (Run c w))) = [] \<and>
         calls OpDelete (fst (snd (Run c w))) = [] \<and>
         calls OpUpdate (fst (snd (Run c w))) = []"
  using assms
    run_loop_DryRun [of OpCreate "CResources c"
      "([Fprintf (line_loaded (length (CResources c)) (length (CModules c)))], w)"]
    run_loop_DryRun [of OpDelete "CResources c"
      "([Fprintf (line_loaded (length (CResources c)) (length (CModules c)))], w)"]
    run_loop_DryRun [of OpUpdate "CResources c"
      "([Fprintf (line_loaded (length (CResources c)) (length (CModules c)))], w)"]
  by (simp add: Run_def calls_simps split: prod.splits)

text \<open>
  Claim C1. In a dry run no \<open>Create\<close>, \<open>Delete\<close> or \<open>Update\<close> is called
  (\<open>Run_DryRun_no_actuation\<close>), but the report the claim asks for is not written: line
  50 leaves the loop body before the \<^verbatim>\<open>switch\<close> that writes it. For one resource that
  is absent and should be present, the dry run writes the count of resources and
  nothing else, where the same catalog run for real writes the line
  \<open>is absent, should be present\<close> and calls \<open>Create\<close>.
\<close>

theorem Run_DryRun_writes_no_report:
  "Run (catalog_of True [nginx]) () =
     (None,
      [Fprintf ''Loaded 1 resources from 0 modules\<newline>'',
       Call OpEvaluate ''package[nginx]'' None], ()) \<and>
   Run (catalog_of False [nginx]) () =
     (None,
      [Fprintf ''Loaded 1 resources from 0 modules\<newline>'',
       Call OpEvaluate ''package[nginx]'' None,
       Fprintf ''package[nginx] is absent, should be present\<newline>'',
       Call OpCreate ''package[nginx]'' None], ())"
  by code_simp

lemma life_switch_unknown_want:
  assumes "Want st \<noteq> Current st"
    and "Want st \<notin> {StatePresent, StateRunning, StateAbsent, StateStopped}"
  shows "life_switch r st w = ([Fprintf (line_unknown (ResourceID r) (Want st) (Current st))], None)"
  using assms by (simp add: life_switch_def Let_def)

lemma life_switch_no_action:
  assumes "Want st \<noteq> Current st"
    and "(Want st \<in> {StatePresent, StateRunning} \<and> Current st \<notin> {StateAbsent, StateStopped}) \<or>
         (Want st \<in> {StateAbsent, StateStopped} \<and> Current st \<notin> {StatePresent, StateRunning})"
  shows "life_switch r st w = ([], Some (None, w))"
  using assms
  by (auto simp: life_switch_def Let_def StatePresent_def StateRunning_def StateAbsent_def
        StateStopped_def)

text \<open>
  When \<open>Want\<close> is one of the four known states and the pair matches no action row
  (\<open>Current\<close> is not in the opposite group), the \<^verbatim>\<open>switch\<close> does nothing and the loop
  body goes on to line 78: nothing is reported or created or deleted, and \<open>Update\<close> is
  called when the state asks for it.
\<close>

lemma run_resource_known_want_unmatched:
  assumes "Evaluate r w = (Inr st, w1)" and "Want st \<noteq> Current st"
    and "(Want st \<in> {StatePresent, StateRunning} \<and> Current st \<notin> {StateAbsent, StateStopped}) \<or>
         (Want st \<in> {StateAbsent, StateStopped} \<and> Current st \<notin> {StatePresent, StateRunning})"
  shows "fst (run_resource False r (tr, w)) =
           tr @ [Call OpEvaluate (ResourceID r) None] @
           (if Update st then
              [Fprintf (line_out_of_date (ResourceID r)),
               Call OpUpdate (ResourceID r) (fst (UpdateR r w1))] @
              (case fst (UpdateR r w1) of
                 None \<Rightarrow> []
               | Some e \<Rightarrow> [Fprintf (line_error (ResourceID r) e)])
            else [])"
  using life_switch_no_action [OF assms(2,3), of r w1] assms(1)
  by (simp add: run_resource_def Let_def after_switch_events update_events_def error_line_def)

text \<open>
  Claim C4, as the code has it. During a run that is not a dry run, a resource whose
  evaluated \<open>Want\<close> differs from \<open>Current\<close> and is none of present, running, absent and
  stopped reaches the \<^verbatim>\<open>default\<close> case of the \<^verbatim>\<open>switch\<close>: the run reports the unknown
  states and skips the resource, so the only call on it is \<open>Evaluate\<close>: nothing is
  created, deleted or updated, whatever \<open>Update\<close> says.
\<close>

theorem run_resource_unknown_want:
  assumes "Evaluate r w = (Inr st, w1)" and "Want st \<noteq> Current st"
    and "Want st \<notin> {StatePresent, StateRunning, StateAbsent, StateStopped}"
  shows "run_resource False r (tr, w) =
           (tr @ [Call OpEvaluate (ResourceID r) None,
                  Fprintf (line_unknown (ResourceID r) (Want st) (Current st))], w1) \<and>
         calls OpCreate (fst (run_resource False r (tr, w))) = calls OpCreate tr \<and>
         calls OpDelete (fst (run_resource False r (tr, w))) = calls OpDelete tr \<and>
         calls OpUpdate (fst (run_resource False r (tr, w))) = calls OpUpdate tr"
proof -
  have "run_resource False r (tr, w) =
           (tr @ [Call OpEvaluate (ResourceID r) None,
                  Fprintf (line_unknown (ResourceID r) (Want st) (Current st))], w1)"
    using life_switch_unknown_want [OF assms(2,3), of r w1] assms(1)
    by (simp add: run_resource_def Let_def)
  then show ?thesis by (simp add: calls_append calls_simps)
qed

text \<open>
  A resource that wants a state the \<^verbatim>\<open>switch\<close> does not know and asks for an update: it
  is reported and skipped, and not updated.
\<close>

theorem run_resource_unknown_want_witness:
  "Evaluate misdeclared () = (Inr \<lparr>Want = ''enabled'', Current = StateStopped, Update = True\<rparr>, ()) \<and>
   ''enabled'' \<noteq> StateStopped \<and>
   ''enabled'' \<notin> {StatePresent, StateRunning, StateAbsent, StateStopped} \<and>
   run_resource False misdeclared ([], ()) =
     ([Call OpEvaluate ''service[cron]'' None,
       Fprintf ''service[cron] unknown state(s): want enabled, current stopped\<newline>''], ()) \<and>
   calls OpUpdate (fst (run_resource False misdeclared ([], ()))) = []"
proof -
  let ?st = "\<lparr>Want = ''enabled'', Current = StateStopped, Update = True\<rparr>"
  have e: "Evaluate misdeclared () = (Inr ?st, ())"
    by (simp add: misdeclared_def fixed_resource_def)
  have d: "Want ?st \<noteq> Current ?st" by (simp add: StateStopped_def)
  have u: "Want ?st \<notin> {StatePresent, StateRunning, StateAbsent, StateStopped}"
    by (simp add: StatePresent_def StateRunning_def StateAbsent_def StateStopped_def)
  have l: "line_unknown ''service[cron]'' ''enabled'' StateStopped =
      ''service[cron] unknown state(s): want enabled, current stopped\<newline>''"
    by (simp add: line_unknown_def StateStopped_def)
  have i: "ResourceID misdeclared = ''service[cron]''"
    by (simp add: misdeclared_def fixed_resource_def)
  from run_resource_unknown_want [OF e d u, of "[]"]
  have r: "run_resource False misdeclared ([], ()) =
     ([Call OpEvaluate ''service[cron]'' None,
       Fprintf ''service[cron] unknown state(s): want enabled, current stopped\<newline>''], ())"
    and c: "calls OpUpdate (fst (run_resource False misdeclared ([], ()))) = []"
    by (simp_all add: l i calls_simps)
  show ?thesis using e d u r c by simp
qed

text \<open>
  The claim as it was stated fails where \<open>Want\<close> is known and \<open>Current\<close> is not: present
  differs from unknown, and unknown is neither absent nor stopped, so the pair matches
  no action row; yet the run writes no line about unknown states and calls \<open>Update\<close>.
\<close>

theorem Run_unknown_current_still_updates:
  "StatePresent \<noteq> StateUnknown \<and> StateUnknown \<noteq> StateAbsent \<and> StateUnknown \<noteq> StateStopped \<and>
   StatePresent \<noteq> StateAbsent \<and> StatePresent \<noteq> StateStopped \<and>
   Run (catalog_of False [drifting]) () =
     (None,
      [Fprintf ''Loaded 1 resources from 0 modules\<newline>'',
       Call OpEvaluate ''service[nginx]'' None,
       Fprintf ''service[nginx] resource is out of date, will be updated\<newline>'',
       Call OpUpdate ''service[nginx]'' None], ())"
  by code_simp

section \<open>The resource dependency graph: its edges, and the missing target\<close>

lemma GraphNodes_AddEdge: "GraphNodes (AddEdge g a b) = GraphNodes g"
  by (simp add: AddEdge_def)

lemma foldl_AddNode: "foldl AddNode g ns = g\<lparr>GraphNodes := GraphNodes g \<union> set ns\<rparr>"
  by (induction ns arbitrary: g) (simp_all add: AddNode_def insert_commute Un_commute)

lemma map_of_keys: "(map_of kvs k = None) = (k \<notin> fst ` set kvs)"
  by (simp add: map_of_eq_None_iff)

lemma connect_after_ok:
  assumes "set deps \<subseteq> fst ` set resources" "fst ` set resources \<subseteq> GraphNodes g" "name \<in> GraphNodes g"
  shows "connect_after resources name deps g =
           (g\<lparr>GraphEdges := GraphEdges g \<union> (\<lambda>dep. (name, dep)) ` set deps\<rparr>, None)"
  using assms
proof (induction deps arbitrary: g)
  case Nil
  then show ?case by simp
next
  case (Cons dep deps)
  from Cons.prems obtain v where v: "map_of resources dep = Some v"
    by (cases "map_of resources dep") (auto simp: map_of_keys)
  have dep: "dep \<in> GraphNodes g" using Cons.prems by auto
  let ?g = "AddEdge g name dep"
  have g: "?g = g\<lparr>GraphEdges := insert (name, dep) (GraphEdges g)\<rparr>"
    using dep Cons.prems(3) by (simp add: AddEdge_def)
  have "connect_after resources name deps ?g =
          (?g\<lparr>GraphEdges := GraphEdges ?g \<union> (\<lambda>dep. (name, dep)) ` set deps\<rparr>, None)"
    using Cons.prems by (intro Cons.IH) (simp_all add: GraphNodes_AddEdge)
  then show ?case using v by (simp add: g)
qed

lemma connect_before_ok:
  assumes "set deps \<subseteq> fst ` set resources" "fst ` set resources \<subseteq> GraphNodes g" "name \<in> GraphNodes g"
  shows "connect_before resources name deps g =
           (g\<lparr>GraphEdges := GraphEdges g \<union> (\<lambda>dep. (dep, name)) ` set deps\<rparr>, None)"
  using assms
proof (induction deps arbitrary: g)
  case Nil
  then show ?case by simp
next
  case (Cons dep deps)
  from Cons.prems obtain v where v: "map_of resources dep = Some v"
    by (cases "map_of resources dep") (auto simp: map_of_keys)
  have dep: "dep \<in> GraphNodes g" using Cons.prems by auto
  let ?g = "AddEdge g dep name"
  have g: "?g = g\<lparr>GraphEdges := insert (dep, name) (GraphEdges g)\<rparr>"
    using dep Cons.prems(3) by (simp add: AddEdge_def)
  have "connect_before resources name deps ?g =
          (?g\<lparr>GraphEdges := GraphEdges ?g \<union> (\<lambda>dep. (dep, name)) ` set deps\<rparr>, None)"
    using Cons.prems by (intro Cons.IH) (simp_all add: GraphNodes_AddEdge)
  then show ?case using v by (simp add: g)
qed

lemma connect_after_missing:
  assumes "\<not> set deps \<subseteq> fst ` set resources"
  shows "\<exists>dep \<in> set deps. dep \<notin> fst ` set resources \<and>
           snd (connect_after resources name deps g) = Some (missing_target name dep)"
  using assms
proof (induction deps arbitrary: g)
  case Nil
  then show ?case by simp
next
  case (Cons dep deps)
  show ?case
  proof (cases "map_of resources dep")
    case None
    then have "dep \<notin> fst ` set resources" by (simp add: map_of_keys)
    then show ?thesis using None by simp
  next
    case (Some v)
    then have "dep \<in> fst ` set resources" using map_of_keys [of resources dep] by simp
    then have "\<not> set deps \<subseteq> fst ` set resources" using Cons.prems by simp
    from Cons.IH [OF this, of "AddEdge g name dep"] show ?thesis using Some by auto
  qed
qed

lemma connect_before_missing:
  assumes "\<not> set deps \<subseteq> fst ` set resources"
  shows "\<exists>dep \<in> set deps. dep \<notin> fst ` set resources \<and>
           snd (connect_before resources name deps g) = Some (missing_target name dep)"
  using assms
proof (induction deps arbitrary: g)
  case Nil
  then show ?case by simp
next
  case (Cons dep deps)
  show ?case
  proof (cases "map_of resources dep")
    case None
    then have "dep \<notin> fst ` set resources" by (simp add: map_of_keys)
    then show ?thesis using None by simp
  next
    case (Some v)
    then have "dep \<in> fst ` set resources" using map_of_keys [of resources dep] by simp
    then have "\<not> set deps \<subseteq> fst ` set resources" using Cons.prems by simp
    from Cons.IH [OF this, of "AddEdge g dep name"] show ?thesis using Some by auto
  qed
qed

lemma connect_after_no_error:
  "set deps \<subseteq> fst ` set resources \<Longrightarrow> snd (connect_after resources name deps g) = None"
proof (induction deps arbitrary: g)
  case Nil
  then show ?case by simp
next
  case (Cons dep deps)
  then obtain v where "map_of resources dep = Some v"
    by (cases "map_of resources dep") (auto simp: map_of_keys)
  then show ?case using Cons by simp
qed

lemma connect_before_no_error:
  "set deps \<subseteq> fst ` set resources \<Longrightarrow> snd (connect_before resources name deps g) = None"
proof (induction deps arbitrary: g)
  case Nil
  then show ?case by simp
next
  case (Cons dep deps)
  then obtain v where "map_of resources dep = Some v"
    by (cases "map_of resources dep") (auto simp: map_of_keys)
  then show ?case using Cons by simp
qed

lemma connect_resources_ok:
  assumes "\<forall>e \<in> set todo. entry_ok resources e"
    and "fst ` set resources \<subseteq> GraphNodes g" and "fst ` set todo \<subseteq> GraphNodes g"
  shows "connect_resources resources todo g =
           (g\<lparr>GraphEdges := GraphEdges g \<union> (\<Union>e \<in> set todo. entry_edges e)\<rparr>, None)"
  using assms
proof (induction todo arbitrary: g)
  case Nil
  then show ?case by simp
next
  case (Cons e todo)
  obtain name r where e: "e = (name, r)" by (cases e)
  have ok: "set (WantAfter r) \<subseteq> fst ` set resources" "set (WantBefore r) \<subseteq> fst ` set resources"
    using Cons.prems(1) e by (simp_all add: entry_ok_def)
  have name: "name \<in> GraphNodes g" using Cons.prems(3) e by simp
  let ?g1 = "g\<lparr>GraphEdges := GraphEdges g \<union> (\<lambda>dep. (name, dep)) ` set (WantAfter r)\<rparr>"
  let ?g2 = "?g1\<lparr>GraphEdges := GraphEdges ?g1 \<union> (\<lambda>dep. (dep, name)) ` set (WantBefore r)\<rparr>"
  have a: "connect_after resources name (WantAfter r) g = (?g1, None)"
    using ok(1) Cons.prems(2) name by (rule connect_after_ok)
  have b: "connect_before resources name (WantBefore r) ?g1 = (?g2, None)"
    using ok(2) Cons.prems(2) name by (intro connect_before_ok) simp_all
  have c: "connect_resources resources todo ?g2 =
             (?g2\<lparr>GraphEdges := GraphEdges ?g2 \<union> (\<Union>e \<in> set todo. entry_edges e)\<rparr>, None)"
    using Cons.prems by (intro Cons.IH) simp_all
  show ?case using a b c e by (simp add: entry_edges_def Un_assoc)
qed

lemma connect_resources_missing:
  assumes "\<exists>e \<in> set todo. \<not> entry_ok resources e"
  shows "\<exists>e \<in> set todo. \<exists>dep \<in> set (WantAfter (snd e) @ WantBefore (snd e)).
           dep \<notin> fst ` set resources \<and>
           snd (connect_resources resources todo g) = Some (missing_target (fst e) dep)"
  using assms
proof (induction todo arbitrary: g)
  case Nil
  then show ?case by simp
next
  case (Cons e todo)
  obtain name r where e: "e = (name, r)" by (cases e)
  obtain g1 e1 where a: "connect_after resources name (WantAfter r) g = (g1, e1)"
    by (cases "connect_after resources name (WantAfter r) g")
  obtain g2 e2 where b: "connect_before resources name (WantBefore r) g1 = (g2, e2)"
    by (cases "connect_before resources name (WantBefore r) g1")
  show ?case
  proof (cases "set (WantAfter r) \<subseteq> fst ` set resources")
    case False
    from connect_after_missing [OF False, of name g] obtain dep where
      "dep \<in> set (WantAfter r)" "dep \<notin> fst ` set resources" "e1 = Some (missing_target name dep)"
      using a by auto
    then show ?thesis using a e by auto
  next
    case after: True
    have e1: "e1 = None" using connect_after_no_error [OF after, of name g] a by simp
    show ?thesis
    proof (cases "set (WantBefore r) \<subseteq> fst ` set resources")
      case False
      from connect_before_missing [OF False, of name g1] obtain dep where
        "dep \<in> set (WantBefore r)" "dep \<notin> fst ` set resources" "e2 = Some (missing_target name dep)"
        using b by auto
      then show ?thesis using a b e e1 by auto
    next
      case before: True
      have e2: "e2 = None" using connect_before_no_error [OF before, of name g1] b by simp
      have "entry_ok resources e" using after before e by (simp add: entry_ok_def)
      then have "\<exists>e \<in> set todo. \<not> entry_ok resources e" using Cons.prems by auto
      from Cons.IH [OF this, of g2] show ?thesis using a b e e1 e2 by auto
    qed
  qed
qed

lemma targets_present_iff:
  "targets_present resources = (\<forall>e \<in> set resources. entry_ok resources e)"
  by (simp add: targets_present_def entry_ok_def list_all_iff case_prod_beta)

lemma wanted_edges_eq: "wanted_edges resources = (\<Union>e \<in> set resources. entry_edges e)"
  by (auto simp: wanted_edges_def entry_edges_def)

text \<open>
  Claim C5. For every resource map whose dependency targets are all present, the
  dependency graph has one node per key and exactly the edges \<open>R \<rightarrow> D\<close> for \<open>D\<close> in
  \<open>WantAfter\<close> of \<open>R\<close> and \<open>D \<rightarrow> R\<close> for \<open>D\<close> in \<open>WantBefore\<close> of \<open>R\<close>; if a listed target is
  not a key of the map, the construction ends with an error that names the wanting
  resource and the missing target. This holds in whatever order the map is visited.
\<close>

theorem ResourceCollectionGraph_edges:
  "(targets_present resources \<longrightarrow>
      ResourceCollectionGraph resources =
        (\<lparr>GraphNodes = fst ` set resources, GraphEdges = wanted_edges resources\<rparr>, None)) \<and>
   (\<not> targets_present resources \<longrightarrow>
      (\<exists>(name, r) \<in> set resources. \<exists>dep \<in> set (WantAfter r @ WantBefore r).
         dep \<notin> fst ` set resources \<and>
         snd (ResourceCollectionGraph resources) = Some (missing_target name dep)))"
proof (intro conjI impI)
  let ?g = "foldl AddNode NewGraph (map fst resources)"
  have g: "?g = \<lparr>GraphNodes = fst ` set resources, GraphEdges = {}\<rparr>"
    by (simp add: foldl_AddNode NewGraph_def)
  assume "targets_present resources"
  then have "\<forall>e \<in> set resources. entry_ok resources e" by (simp add: targets_present_iff)
  then have "connect_resources resources resources ?g =
      (?g\<lparr>GraphEdges := GraphEdges ?g \<union> (\<Union>e \<in> set resources. entry_edges e)\<rparr>, None)"
    by (rule connect_resources_ok) (simp_all add: g)
  then show "ResourceCollectionGraph resources =
        (\<lparr>GraphNodes = fst ` set resources, GraphEdges = wanted_edges resources\<rparr>, None)"
    by (simp add: ResourceCollectionGraph_def g wanted_edges_eq)
next
  assume "\<not> targets_present resources"
  then have "\<exists>e \<in> set resources. \<not> entry_ok resources e" by (simp add: targets_present_iff)
  from connect_resources_missing [OF this, of "foldl AddNode NewGraph (map fst resources)"]
  show "\<exists>(name, r) \<in> set resources. \<exists>dep \<in> set (WantAfter r @ WantBefore r).
         dep \<notin> fst ` set resources \<and>
         snd (ResourceCollectionGraph resources) = Some (missing_target name dep)"
    by (fastforce simp: ResourceCollectionGraph_def)
qed

text \<open>
  \<open>A\<close> wants to come after \<open>B\<close>, \<open>B\<close> after \<open>C\<close>, and \<open>C\<close> before \<open>A\<close>: three edges. \<open>A\<close>
  wants to come after \<open>Z\<close>, which is not in the map: the error names \<open>A\<close> and \<open>Z\<close>.
\<close>

theorem ResourceCollectionGraph_edges_witness:
  "targets_present chain_resources \<and>
   ResourceCollectionGraph chain_resources =
     (\<lparr>GraphNodes = {''A'', ''B'', ''C''},
       GraphEdges = {(''A'', ''B''), (''B'', ''C''), (''A'', ''C'')}\<rparr>, None) \<and>
   \<not> targets_present dangling_resources \<and>
   snd (ResourceCollectionGraph dangling_resources) =
     Some ''Resource A wants Z, which does not exist''"
proof -
  have p: "targets_present chain_resources" by code_simp
  have n: "fst ` set chain_resources = {''A'', ''B'', ''C''}" by code_simp
  have e: "wanted_edges chain_resources = {(''A'', ''B''), (''B'', ''C''), (''A'', ''C'')}"
    by code_simp
  have q: "\<not> targets_present dangling_resources" by code_simp
  have only: "set dangling_resources = {(''A'', wanting ''A'' [] [''Z''])}"
    by (simp add: dangling_resources_def)
  have deps: "WantAfter (wanting ''A'' [] [''Z'']) = [''Z'']" "WantBefore (wanting ''A'' [] [''Z'']) = []"
    by (simp_all add: wanting_def fixed_resource_def)
  have m: "missing_target ''A'' ''Z'' = ''Resource A wants Z, which does not exist''"
    by code_simp
  from ResourceCollectionGraph_edges [of chain_resources] p
  have a: "ResourceCollectionGraph chain_resources =
     (\<lparr>GraphNodes = {''A'', ''B'', ''C''},
       GraphEdges = {(''A'', ''B''), (''B'', ''C''), (''A'', ''C'')}\<rparr>, None)"
    by (simp add: n e)
  from ResourceCollectionGraph_edges [of dangling_resources] q
  have b: "snd (ResourceCollectionGraph dangling_resources) =
     Some ''Resource A wants Z, which does not exist''"
    by (simp add: only deps m)
  show ?thesis using p q a b by simp
qed

section \<open>The resource collection: duplicates\<close>

lemma collect_resources_declarations:
  "collect_declarations (map (\<lambda>r. (mname, r)) rs @ ds) s =
     (case collect_resources mname rs s of
        (s', Some e) \<Rightarrow> (s', Some e)
      | (s', None) \<Rightarrow> collect_declarations ds s')"
proof (induction rs arbitrary: s)
  case Nil
  then show ?case by simp
next
  case (Cons r rs)
  show ?case
  proof (cases "map_of (snd s) (ResourceID r)")
    case None
    then show ?thesis using Cons.IH by (simp add: Let_def)
  next
    case (Some v)
    then show ?thesis by (simp add: Let_def)
  qed
qed

lemma collect_modules_declarations:
  "collect_modules ms s = collect_declarations (declarations ms) s"
proof (induction ms arbitrary: s)
  case Nil
  then show ?case by (simp add: declarations_def)
next
  case (Cons m ms)
  obtain s' e where c: "collect_resources (Name m) (Resources m) s = (s', e)"
    by (cases "collect_resources (Name m) (Resources m) s")
  have d: "declarations (m # ms) = map (\<lambda>r. (Name m, r)) (Resources m) @ declarations ms"
    by (simp add: declarations_def)
  show ?case using c Cons.IH [of s']
    by (cases e) (simp_all add: d collect_resources_declarations)
qed

lemma stored_keys: "stored seen s \<Longrightarrow> fst ` set (snd s) = (\<lambda>d. ResourceID (snd d)) ` set seen"
  by (force simp: stored_def)

lemma stored_step:
  assumes "stored seen s" "map_of (snd s) (ResourceID r) = None"
  shows "stored (seen @ [(mname, r)]) ((fst s)(ResourceID r \<mapsto> mname), snd s @ [(ResourceID r, r)])"
proof -
  have new: "ResourceID r \<notin> (\<lambda>d. ResourceID (snd d)) ` set seen"
    using assms stored_keys [OF assms(1)] by (simp add: map_of_eq_None_iff)
  have other: "ResourceID (snd d) \<noteq> ResourceID r" if "d \<in> set seen" for d
  proof
    assume "ResourceID (snd d) = ResourceID r"
    then have "ResourceID r = (\<lambda>d. ResourceID (snd d)) d" by simp
    then have "ResourceID r \<in> (\<lambda>d. ResourceID (snd d)) ` set seen"
      using that by (rule image_eqI)
    with new show False ..
  qed
  show ?thesis using assms(1) new other by (simp add: stored_def)
qed

lemma collect_declarations_distinct:
  assumes "stored seen s" "distinct (map (\<lambda>d. ResourceID (snd d)) (seen @ ds))"
  shows "\<exists>mm. collect_declarations ds s =
           ((mm, map (\<lambda>d. (ResourceID (snd d), snd d)) (seen @ ds)), None)"
  using assms
proof (induction ds arbitrary: seen s)
  case Nil
  then show ?case by (cases s) (simp add: stored_def)
next
  case (Cons d ds)
  obtain mname r where d: "d = (mname, r)" by (cases d)
  have "ResourceID r \<notin> (\<lambda>d. ResourceID (snd d)) ` set seen"
    using Cons.prems(2) d by auto
  then have none: "map_of (snd s) (ResourceID r) = None"
    using stored_keys [OF Cons.prems(1)] by (simp add: map_of_eq_None_iff)
  have "stored (seen @ [(mname, r)]) ((fst s)(ResourceID r \<mapsto> mname), snd s @ [(ResourceID r, r)])"
    using Cons.prems(1) none by (rule stored_step)
  from Cons.IH [OF this] Cons.prems(2) show ?case using none d by simp
qed

lemma collect_declarations_duplicate:
  assumes "stored seen s" "\<not> distinct (map (\<lambda>d. ResourceID (snd d)) (seen @ ds))"
  shows "\<exists>i j. i < j \<and> j < length (seen @ ds) \<and>
           ResourceID (snd ((seen @ ds) ! i)) = ResourceID (snd ((seen @ ds) ! j)) \<and>
           snd (collect_declarations ds s) =
             Some (duplicate_resource (ResourceID (snd ((seen @ ds) ! j)))
                    (fst ((seen @ ds) ! j)) (fst ((seen @ ds) ! i)))"
  using assms
proof (induction ds arbitrary: seen s)
  case Nil
  then show ?case by (simp add: stored_def)
next
  case (Cons d ds)
  obtain mname r where d: "d = (mname, r)" by (cases d)
  show ?case
  proof (cases "map_of (snd s) (ResourceID r)")
    case None
    have st: "stored (seen @ [(mname, r)]) ((fst s)(ResourceID r \<mapsto> mname), snd s @ [(ResourceID r, r)])"
      using Cons.prems(1) None by (rule stored_step)
    have "\<not> distinct (map (\<lambda>d. ResourceID (snd d)) ((seen @ [(mname, r)]) @ ds))"
      using Cons.prems(2) d by simp
    from Cons.IH [OF st this] show ?thesis using None d by simp
  next
    case (Some v)
    then have "ResourceID r \<in> fst ` set (snd s)"
      by (metis map_of_eq_None_iff option.distinct(1))
    then have "ResourceID r \<in> (\<lambda>d. ResourceID (snd d)) ` set seen"
      using stored_keys [OF Cons.prems(1)] by simp
    then obtain i where i: "i < length seen" "ResourceID (snd (seen ! i)) = ResourceID r"
      by (auto simp: in_set_conv_nth)
    have prev: "fst s (ResourceID r) = Some (fst (seen ! i))"
      using Cons.prems(1) i nth_mem [OF i(1)] unfolding stored_def by metis
    have "snd (collect_declarations (d # ds) s) =
            Some (duplicate_resource (ResourceID r) mname (fst (seen ! i)))"
      using Some d prev by simp
    then show ?thesis using i d
      by (intro exI [of _ i] exI [of _ "length seen"]) (simp add: nth_append)
  qed
qed

lemma ResourceCollection_duplicates:
  "(distinct (map (\<lambda>d. ResourceID (snd d)) (declarations ms)) \<longrightarrow>
      ResourceCollection ms = (map (\<lambda>d. (ResourceID (snd d), snd d)) (declarations ms), None)) \<and>
   (\<not> distinct (map (\<lambda>d. ResourceID (snd d)) (declarations ms)) \<longrightarrow>
      (\<exists>i j. i < j \<and> j < length (declarations ms) \<and>
         ResourceID (snd (declarations ms ! i)) = ResourceID (snd (declarations ms ! j)) \<and>
         snd (ResourceCollection ms) =
           Some (duplicate_resource (ResourceID (snd (declarations ms ! j)))
                  (fst (declarations ms ! j)) (fst (declarations ms ! i)))))"
proof -
  have st: "stored [] (Map.empty, [])" by (simp add: stored_def)
  have rc: "ResourceCollection ms =
      (snd (fst (collect_declarations (declarations ms) (Map.empty, []))),
       snd (collect_declarations (declarations ms) (Map.empty, [])))"
    by (simp add: ResourceCollection_def collect_modules_declarations split: prod.splits)
  show ?thesis
    using collect_declarations_distinct [OF st, of "declarations ms"]
          collect_declarations_duplicate [OF st, of "declarations ms"]
    by (auto simp: rc)
qed

section \<open>The import graph: the closure returns\<close>

lemma remaining_mono: "GraphNodes g \<subseteq> GraphNodes g' \<Longrightarrow> remaining modules g' \<le> remaining modules g"
  unfolding remaining_def by (intro card_mono) auto

lemma remaining_AddNode:
  assumes "m \<in> snd ` set modules" "Name m \<notin> GraphNodes g" "remaining modules g < Suc k"
  shows "remaining modules (AddNode g (Name m)) < k"
proof -
  let ?names = "(Name \<circ> snd) ` set modules"
  have in_names: "Name m \<in> ?names - GraphNodes g" using assms(1,2) by auto
  have "?names - GraphNodes (AddNode g (Name m)) = (?names - GraphNodes g) - {Name m}"
    by (auto simp: AddNode_def)
  then have "remaining modules (AddNode g (Name m)) = card ((?names - GraphNodes g) - {Name m})"
    by (simp add: remaining_def)
  also have "\<dots> < card (?names - GraphNodes g)"
    using in_names by (intro card_Diff1_less) simp_all
  finally show ?thesis using assms(3) by (simp add: remaining_def)
qed

lemma buildImportGraphFunc_returns:
  "(m \<in> snd ` set modules \<longrightarrow> remaining modules g < k \<longrightarrow>
      (\<exists>g' e. buildImportGraphFunc k modules m g = Some (g', e) \<and> GraphNodes g \<subseteq> GraphNodes g'))"
  "(remaining modules g < k \<longrightarrow>
      (\<exists>g' e. build_imports k modules m mis g = Some (g', e) \<and> GraphNodes g \<subseteq> GraphNodes g'))"
proof (induction k modules m g and k modules m mis g
    rule: buildImportGraphFunc_build_imports.induct)
  case (1 modules m g)
  then show ?case by simp
next
  case (2 k modules m g)
  show ?case
  proof (intro impI)
    assume m: "m \<in> snd ` set modules" and r: "remaining modules g < Suc k"
    show "\<exists>g' e. buildImportGraphFunc (Suc k) modules m g = Some (g', e) \<and> GraphNodes g \<subseteq> GraphNodes g'"
    proof (cases "GetNode g (Name m)")
      case True
      then show ?thesis by simp
    next
      case False
      then have "Name m \<notin> GraphNodes g" by (simp add: GetNode_def)
      from remaining_AddNode [OF m this r] "2.IH" [OF False]
      obtain g' e where "build_imports k modules m (Imports m) (AddNode g (Name m)) = Some (g', e)"
        and "GraphNodes (AddNode g (Name m)) \<subseteq> GraphNodes g'" by blast
      then show ?thesis using False by (auto simp: AddNode_def)
    qed
  qed
next
  case (3 k modules m g)
  then show ?case by simp
next
  case (4 k modules m mi rest g)
  show ?case
  proof (intro impI)
    assume r: "remaining modules g < k"
    show "\<exists>g' e. build_imports k modules m (mi # rest) g = Some (g', e) \<and> GraphNodes g \<subseteq> GraphNodes g'"
    proof (cases "map_of modules (ImportName mi)")
      case None
      then show ?thesis by simp
    next
      case (Some imported)
      then have "imported \<in> snd ` set modules"
        by (metis map_of_SomeD image_eqI snd_conv)
      from "4.IH"(1) [OF Some] this r obtain g1 e1 where
        b: "buildImportGraphFunc k modules imported g = Some (g1, e1)" and sub: "GraphNodes g \<subseteq> GraphNodes g1"
        by blast
      have nodes: "GraphNodes (AddEdge g1 (Name m) (ImportName mi)) = GraphNodes g1"
        by (simp add: AddEdge_def)
      then have "GraphNodes g \<subseteq> GraphNodes (AddEdge g1 (Name m) (ImportName mi))"
        using sub by simp
      from remaining_mono [OF this, of modules] r
      have "remaining modules (AddEdge g1 (Name m) (ImportName mi)) < k" by simp
      from "4.IH"(2) [OF Some b refl] this obtain g2 e2 where
        "build_imports k modules m rest (AddEdge g1 (Name m) (ImportName mi)) = Some (g2, e2)"
        "GraphNodes (AddEdge g1 (Name m) (ImportName mi)) \<subseteq> GraphNodes g2" by blast
      then show ?thesis using Some b sub nodes by auto
    qed
  qed
qed

lemma ImportGraph_returns: "\<exists>g err. ImportGraph main discovered = Some (g, err)"
proof (cases discovered)
  case (Inl e)
  then show ?thesis by (simp add: ImportGraph_def)
next
  case (Inr modules)
  show ?thesis
  proof (cases "map_of modules main")
    case None
    then show ?thesis using Inr by (simp add: ImportGraph_def)
  next
    case (Some m)
    then have m: "m \<in> snd ` set modules" by (metis map_of_SomeD image_eqI snd_conv)
    have "remaining modules NewGraph \<le> card (set modules)"
      unfolding remaining_def NewGraph_def by (simp add: card_image_le)
    also have "\<dots> \<le> length modules" by (rule card_length)
    finally have "remaining modules NewGraph < Suc (length modules)" by simp
    with buildImportGraphFunc_returns(1) [of m modules NewGraph "Suc (length modules)"] m
    show ?thesis using Inr Some by (auto simp: ImportGraph_def)
  qed
qed

lemma build_imports_missing:
  assumes "remaining modules g < k"
    and "\<forall>p \<in> set pre. map_of modules (ImportName p) \<noteq> None"
    and "map_of modules (ImportName mi) = None"
  shows "\<exists>g'. build_imports k modules m (pre @ mi # post) g =
           Some (g', Some (missing_import (Name m) (ImportName mi)))"
  using assms(1,2)
proof (induction pre arbitrary: g)
  case Nil
  then show ?case using assms(3) by simp
next
  case (Cons p pre)
  from Cons.prems(2) obtain imported where p: "map_of modules (ImportName p) = Some imported"
    by auto
  then have "imported \<in> snd ` set modules" by (metis map_of_SomeD image_eqI snd_conv)
  with buildImportGraphFunc_returns(1) [of imported modules g k] Cons.prems(1)
  obtain g1 e1 where b: "buildImportGraphFunc k modules imported g = Some (g1, e1)"
    and sub: "GraphNodes g \<subseteq> GraphNodes g1" by blast
  have "GraphNodes g \<subseteq> GraphNodes (AddEdge g1 (Name m) (ImportName p))"
    using sub by (simp add: AddEdge_def)
  from remaining_mono [OF this, of modules] Cons.prems(1)
  have "remaining modules (AddEdge g1 (Name m) (ImportName p)) < k" by simp
  from Cons.IH [OF this] Cons.prems(2) show ?case using p b by simp
qed

lemma ImportGraph_direct_import_missing:
  assumes "map_of modules main = Some m" and "Imports m = pre @ mi # post"
    and "\<forall>p \<in> set pre. map_of modules (ImportName p) \<noteq> None"
    and "map_of modules (ImportName mi) = None"
  shows "\<exists>g. ImportGraph main (Inr modules) =
           Some (g, Some (missing_import (Name m) (ImportName mi)))"
proof -
  have m: "m \<in> snd ` set modules" using assms(1) by (metis map_of_SomeD image_eqI snd_conv)
  have "remaining modules NewGraph \<le> card (set modules)"
    unfolding remaining_def NewGraph_def by (simp add: card_image_le)
  also have "\<dots> \<le> length modules" by (rule card_length)
  finally have r: "remaining modules NewGraph < Suc (length modules)" by simp
  have fresh: "Name m \<notin> GraphNodes NewGraph" by (simp add: NewGraph_def)
  from remaining_AddNode [OF m fresh r]
  have "remaining modules (AddNode NewGraph (Name m)) < length modules" .
  from build_imports_missing [OF this assms(3,4), of m post]
  show ?thesis using assms(1,2) fresh by (simp add: ImportGraph_def GetNode_def)
qed

text \<open>
  Claim C2. A module that imports a module missing from the module map makes
  \<open>ImportGraph\<close> fail only when it is the main module (\<open>ImportGraph_direct_import_missing\<close>).
  For a module reached through an import the closure builds the same error, but line
  220 drops what the recursive call returns: with \<open>main\<close> importing \<open>a\<close> and \<open>a\<close>
  importing the missing \<open>x\<close>, \<open>ImportGraph\<close> returns the graph of \<open>main\<close> and \<open>a\<close> with no
  error, and \<open>Load\<close> succeeds.
\<close>

theorem ImportGraph_drops_transitive_error:
  "map_of transitive_modules ''main'' = Some (module_of ''main'' [] [''a'']) \<and>
   map_of transitive_modules ''a'' = Some (module_of ''a'' [] [''x'']) \<and>
   map_of transitive_modules ''x'' = None \<and>
   ImportGraph ''main'' (Inr transitive_modules) =
     Some (\<lparr>GraphNodes = {''main'', ''a''}, GraphEdges = {(''main'', ''a'')}\<rparr>, None) \<and>
   Load \<lparr>Main = ''main'', DryRun = False\<rparr> transitive_environment =
     Return (\<lparr>CModules = [module_of ''a'' [] [''x''], module_of ''main'' [] [''a'']],
              CResources = [], CConfig = \<lparr>Main = ''main'', DryRun = False\<rparr>\<rparr>, None)"
  by code_simp

text \<open>
  Claim C3, as the code has it. If the declarations of the sorted modules repeat a
  \<open>ResourceID\<close>, \<open>Load\<close> fails with an error that names a repeated \<open>ResourceID\<close>, the
  module of the repeating declaration and the module of the earlier one. The catalog
  returned with the error holds no resources, and it holds the sorted modules.
\<close>

theorem Load_duplicate_resource:
  assumes "load_modules config env = Return (Inr ms)"
    and "\<not> distinct (map (\<lambda>d. ResourceID (snd d)) (declarations ms))"
  shows "\<exists>i j. i < j \<and> j < length (declarations ms) \<and>
           ResourceID (snd (declarations ms ! i)) = ResourceID (snd (declarations ms ! j)) \<and>
           Load config env =
             Return (\<lparr>CModules = ms, CResources = [], CConfig = config\<rparr>,
                     Some (duplicate_resource (ResourceID (snd (declarations ms ! j)))
                            (fst (declarations ms ! j)) (fst (declarations ms ! i))))"
proof -
  from ResourceCollection_duplicates [of ms] assms(2) obtain i j where
    ij: "i < j" "j < length (declarations ms)"
      "ResourceID (snd (declarations ms ! i)) = ResourceID (snd (declarations ms ! j))"
      "snd (ResourceCollection ms) =
         Some (duplicate_resource (ResourceID (snd (declarations ms ! j)))
                (fst (declarations ms ! j)) (fst (declarations ms ! i)))"
    by blast
  obtain rm where rc: "ResourceCollection ms =
      (rm, Some (duplicate_resource (ResourceID (snd (declarations ms ! j)))
                (fst (declarations ms ! j)) (fst (declarations ms ! i))))"
    using ij(4) by (cases "ResourceCollection ms") simp
  have "Load config env =
          Return (\<lparr>CModules = ms, CResources = [], CConfig = config\<rparr>,
                  Some (duplicate_resource (ResourceID (snd (declarations ms ! j)))
                         (fst (declarations ms ! j)) (fst (declarations ms ! i))))"
    using assms(1) rc by (simp add: Load_def load_resources_def)
  then show ?thesis using ij(1,2,3) by blast
qed

text \<open>
  The modules \<open>m1\<close> and \<open>m2\<close> both declare \<open>package[nginx]\<close>: the error names the three.
\<close>

theorem Load_duplicate_resource_witness:
  "load_modules \<lparr>Main = ''m2'', DryRun = False\<rparr> duplicate_environment =
     Return (Inr [module_of ''m1'' [nginx] [], module_of ''m2'' [nginx] [''m1'']]) \<and>
   declarations [module_of ''m1'' [nginx] [], module_of ''m2'' [nginx] [''m1'']] =
     [(''m1'', nginx), (''m2'', nginx)] \<and>
   Load \<lparr>Main = ''m2'', DryRun = False\<rparr> duplicate_environment =
     Return (\<lparr>CModules = [module_of ''m1'' [nginx] [], module_of ''m2'' [nginx] [''m1'']],
              CResources = [], CConfig = \<lparr>Main = ''m2'', DryRun = False\<rparr>\<rparr>,
             Some ''Duplicate resource package[nginx] in m2, previous declaration was in m1'')"
proof -
  let ?ms = "[module_of ''m1'' [nginx] [], module_of ''m2'' [nginx] [''m1'']]"
  let ?cfg = "\<lparr>Main = ''m2'', DryRun = False\<rparr>"
  have g: "ImportGraph ''m2'' (Inr duplicate_modules) =
      Some (\<lparr>GraphNodes = {''m2'', ''m1''}, GraphEdges = {(''m2'', ''m1'')}\<rparr>, None)"
    by code_simp
  have l: "lookup_all duplicate_modules [''m1'', ''m2''] = Some ?ms"
    by (simp add: duplicate_modules_def)
  have lm: "load_modules ?cfg duplicate_environment = Return (Inr ?ms)"
    by (simp add: load_modules_def duplicate_environment_def g l del: lookup_all.simps)
  have ds: "declarations ?ms = [(''m1'', nginx), (''m2'', nginx)]"
    by (simp add: declarations_def module_of_def)
  have dup: "\<not> distinct (map (\<lambda>d. ResourceID (snd d)) (declarations ?ms))"
    by (simp add: ds)
  have msg: "duplicate_resource (ResourceID nginx) ''m2'' ''m1'' =
      ''Duplicate resource package[nginx] in m2, previous declaration was in m1''"
    by code_simp
  from Load_duplicate_resource [OF lm dup] obtain i j where
    ij: "i < j" "j < length (declarations ?ms)" and
    ld: "Load ?cfg duplicate_environment =
           Return (\<lparr>CModules = ?ms, CResources = [], CConfig = ?cfg\<rparr>,
                   Some (duplicate_resource (ResourceID (snd (declarations ?ms ! j)))
                          (fst (declarations ?ms ! j)) (fst (declarations ?ms ! i))))"
    by blast
  from ij have "i = 0" "j = 1" by (simp_all add: ds)
  with ld have "Load ?cfg duplicate_environment =
      Return (\<lparr>CModules = ?ms, CResources = [], CConfig = ?cfg\<rparr>,
              Some ''Duplicate resource package[nginx] in m2, previous declaration was in m1'')"
    by (simp add: ds msg)
  then show ?thesis using lm ds by simp
qed

text \<open>
  The claim as it was stated fails on the modules: every error path of \<open>Load\<close> returns
  the catalog built so far, and the modules are stored (lines 120 to 122) before the
  resources are collected.
\<close>

theorem Load_duplicate_keeps_modules:
  "(case Load \<lparr>Main = ''m2'', DryRun = False\<rparr> duplicate_environment of
      Return (c, err) \<Rightarrow>
        err = Some ''Duplicate resource package[nginx] in m2, previous declaration was in m1'' \<and>
        map Name (CModules c) = [''m1'', ''m2''] \<and> CModules c \<noteq> [] \<and> CResources c = []
    | Panic \<Rightarrow> False
    | NoReturn \<Rightarrow> False)"
  by code_simp

section \<open>The minion: the backlog, the listener, the task log and the classifiers\<close>

lemma sends_append: "sends (xs @ ys) = sends xs @ sends ys"
  by (simp add: sends_def)

lemma deletes_append: "deletes (xs @ ys) = deletes xs @ deletes ys"
  by (simp add: deletes_def)

lemma sends_simps:
  "sends [] = []"
  "sends (Send t # es) = t # sends es"
  "sends (Kapi k # es) = sends es"
  "sends (Log l # es) = sends es"
  "sends (Exec c as # es) = sends es"
  "sends (NilDereference # es) = sends es"
  by (simp_all add: sends_def)

lemma deletes_simps:
  "deletes [] = []"
  "deletes (Kapi (Kapi_Delete k) # es) = k # deletes es"
  "deletes (Kapi (Kapi_Get k r s) # es) = deletes es"
  "deletes (Kapi (Kapi_Watcher k r) # es) = deletes es"
  "deletes (Send t # es) = deletes es"
  "deletes (Log l # es) = deletes es"
  "deletes (NilDereference # es) = deletes es"
  by (simp_all add: deletes_def)

lemma delete_precedes_send_append:
  assumes "delete_precedes_send wd ns xs" "delete_precedes_send wd ns ys"
  shows "delete_precedes_send wd ns (xs @ ys)"
  unfolding delete_precedes_send_def
proof (intro allI impI)
  fix i task
  assume i: "i < length (xs @ ys)" and s: "(xs @ ys) ! i = Send task"
  show "0 < i \<and> (\<exists>n \<in> set ns. (xs @ ys) ! (i - 1) = Kapi (Kapi_Delete (Key n)) \<and>
          json_Unmarshal wd (Value n) = Inr task)"
  proof (cases "i < length xs")
    case True
    then have "xs ! i = Send task" using s by (simp add: nth_append)
    with assms(1) True obtain n where "0 < i" "n \<in> set ns"
      "xs ! (i - 1) = Kapi (Kapi_Delete (Key n))" "json_Unmarshal wd (Value n) = Inr task"
      unfolding delete_precedes_send_def by blast
    then show ?thesis using True by (auto simp: nth_append)
  next
    case False
    let ?j = "i - length xs"
    have j: "?j < length ys" using i False by simp
    have "ys ! ?j = Send task" using s False by (simp add: nth_append)
    with assms(2) j obtain n where n: "0 < ?j" "n \<in> set ns"
      "ys ! (?j - 1) = Kapi (Kapi_Delete (Key n))" "json_Unmarshal wd (Value n) = Inr task"
      unfolding delete_precedes_send_def by blast
    have "\<not> i - 1 < length xs" and "i - 1 - length xs = ?j - 1" using n(1) by arith+
    then have "(xs @ ys) ! (i - 1) = ys ! (?j - 1)" by (simp only: nth_append if_False)
    then show ?thesis using n by auto
  qed
qed

lemma delete_precedes_send_mono:
  "delete_precedes_send wd ns xs \<Longrightarrow> set ns \<subseteq> set ns' \<Longrightarrow> delete_precedes_send wd ns' xs"
  unfolding delete_precedes_send_def by blast

text \<open>One step of the loop, on what the entry decodes to.\<close>

lemma drain_undecodable:
  "json_Unmarshal wd (Value node) = Inl err \<Longrightarrow>
   drain_backlog wd ready (node # backlog) =
     (fst (drain_backlog wd ready backlog),
      [Log (''Invalid task '' @ Key node @ '': '' @ err @ ''\<newline>''),
       Kapi (Kapi_Delete (Key node))] @ snd (drain_backlog wd ready backlog))"
  by (simp add: EtcdUnmarshalTask_def split: prod.splits)

lemma drain_blocked:
  "json_Unmarshal wd (Value node) = Inr task \<Longrightarrow>
   drain_backlog wd 0 (node # backlog) = (NoReturn, [Kapi (Kapi_Delete (Key node))])"
  by (simp add: EtcdUnmarshalTask_def)

lemma drain_sent:
  "json_Unmarshal wd (Value node) = Inr task \<Longrightarrow>
   drain_backlog wd (Suc left) (node # backlog) =
     (fst (drain_backlog wd left backlog),
      [Kapi (Kapi_Delete (Key node)), Send task] @ snd (drain_backlog wd left backlog))"
  by (simp add: EtcdUnmarshalTask_def split: prod.splits)

lemma decoded_Cons:
  "decoded wd (n # ns) =
     (case json_Unmarshal wd (Value n) of Inl err \<Rightarrow> [] | Inr task \<Rightarrow> [task]) @ decoded wd ns"
  by (simp add: decoded_def)

lemma delete_precedes_send_no_send:
  "\<forall>e \<in> set xs. \<forall>task. e \<noteq> Send task \<Longrightarrow> delete_precedes_send wd ns xs"
  unfolding delete_precedes_send_def by (metis nth_mem)

lemma delete_precedes_send_pair:
  assumes "n \<in> set ns" "json_Unmarshal wd (Value n) = Inr task"
  shows "delete_precedes_send wd ns [Kapi (Kapi_Delete (Key n)), Send task]"
  unfolding delete_precedes_send_def
proof (intro allI impI)
  fix i t
  assume i: "i < length [Kapi (Kapi_Delete (Key n)), Send task]"
    and s: "[Kapi (Kapi_Delete (Key n)), Send task] ! i = Send t"
  have "i = 0 \<or> i = 1" using i by auto
  then have i1: "i = 1" and t: "t = task" using s by auto
  show "0 < i \<and> (\<exists>n' \<in> set ns.
          [Kapi (Kapi_Delete (Key n)), Send task] ! (i - 1) = Kapi (Kapi_Delete (Key n')) \<and>
          json_Unmarshal wd (Value n') = Inr t)"
    using i1 t assms by auto
qed

text \<open>With a receiver for every task, the whole backlog is drained, in order.\<close>

lemma drain_backlog_received:
  "length (decoded wd backlog) \<le> ready \<Longrightarrow>
   fst (drain_backlog wd ready backlog) = Return () \<and>
   deletes (snd (drain_backlog wd ready backlog)) = map Key backlog \<and>
   sends (snd (drain_backlog wd ready backlog)) = decoded wd backlog \<and>
   delete_precedes_send wd backlog (snd (drain_backlog wd ready backlog))"
proof (induction backlog arbitrary: ready)
  case Nil
  then show ?case by (simp add: deletes_def sends_def decoded_def delete_precedes_send_def)
next
  case (Cons node backlog)
  show ?case
  proof (cases "json_Unmarshal wd (Value node)")
    case (Inl err)
    have d: "decoded wd (node # backlog) = decoded wd backlog"
      by (simp add: decoded_Cons Inl)
    then have "length (decoded wd backlog) \<le> ready" using Cons.prems by simp
    note ih = Cons.IH [OF this]
    let ?seg = "[Log (''Invalid task '' @ Key node @ '': '' @ err @ ''\<newline>''),
       Kapi (Kapi_Delete (Key node))]"
    let ?rest = "snd (drain_backlog wd ready backlog)"
    have step: "drain_backlog wd ready (node # backlog) =
        (fst (drain_backlog wd ready backlog), ?seg @ ?rest)"
      by (rule drain_undecodable [OF Inl])
    have seg: "delete_precedes_send wd (node # backlog) ?seg"
      by (rule delete_precedes_send_no_send) simp
    have rest: "delete_precedes_send wd (node # backlog) ?rest"
      by (rule delete_precedes_send_mono [of wd backlog]) (use ih in auto)
    have c1: "fst (drain_backlog wd ready (node # backlog)) = Return ()"
      using ih by (simp only: step fst_conv)
    have c2: "deletes (snd (drain_backlog wd ready (node # backlog))) = map Key (node # backlog)"
      using ih by (simp only: step snd_conv deletes_append) (simp add: deletes_simps)
    have c3: "sends (snd (drain_backlog wd ready (node # backlog))) = decoded wd (node # backlog)"
      using ih by (simp only: step snd_conv sends_append d) (simp add: sends_simps)
    have c4: "delete_precedes_send wd (node # backlog) (snd (drain_backlog wd ready (node # backlog)))"
      using delete_precedes_send_append [OF seg rest] by (simp only: step snd_conv)
    show ?thesis using c1 c2 c3 c4 by blast
  next
    case (Inr task)
    have d: "decoded wd (node # backlog) = task # decoded wd backlog"
      by (simp add: decoded_Cons Inr)
    then obtain left where ready: "ready = Suc left" and left: "length (decoded wd backlog) \<le> left"
      using Cons.prems by (cases ready) simp_all
    note ih = Cons.IH [OF left]
    let ?seg = "[Kapi (Kapi_Delete (Key node)), Send task]"
    let ?rest = "snd (drain_backlog wd left backlog)"
    have step: "drain_backlog wd ready (node # backlog) =
        (fst (drain_backlog wd left backlog), ?seg @ ?rest)"
      unfolding ready by (rule drain_sent [OF Inr])
    have seg: "delete_precedes_send wd (node # backlog) ?seg"
      by (rule delete_precedes_send_pair [OF _ Inr]) simp
    have rest: "delete_precedes_send wd (node # backlog) ?rest"
      by (rule delete_precedes_send_mono [of wd backlog]) (use ih in auto)
    have c1: "fst (drain_backlog wd ready (node # backlog)) = Return ()"
      using ih by (simp only: step fst_conv)
    have c2: "deletes (snd (drain_backlog wd ready (node # backlog))) = map Key (node # backlog)"
      using ih by (simp only: step snd_conv deletes_append) (simp add: deletes_simps)
    have c3: "sends (snd (drain_backlog wd ready (node # backlog))) = decoded wd (node # backlog)"
      using ih by (simp only: step snd_conv sends_append d) (simp add: sends_simps)
    have c4: "delete_precedes_send wd (node # backlog) (snd (drain_backlog wd ready (node # backlog)))"
      using delete_precedes_send_append [OF seg rest] by (simp only: step snd_conv)
    show ?thesis using c1 c2 c3 c4 by blast
  qed
qed

text \<open>
  With no receiver, the drain blocks at the first entry that decodes: nothing is sent,
  and the entries behind that one are not deleted.
\<close>

lemma drain_backlog_blocks:
  "decoded wd backlog \<noteq> [] \<Longrightarrow>
   fst (drain_backlog wd 0 backlog) = NoReturn \<and>
   sends (snd (drain_backlog wd 0 backlog)) = [] \<and>
   deletes (snd (drain_backlog wd 0 backlog)) = map Key (until_decoded wd backlog)"
proof (induction backlog)
  case Nil
  then show ?case by (simp add: decoded_def)
next
  case (Cons node backlog)
  show ?case
  proof (cases "json_Unmarshal wd (Value node)")
    case (Inl err)
    then have "decoded wd backlog \<noteq> []" using Cons.prems by (simp add: decoded_Cons)
    from Cons.IH [OF this] show ?thesis
      unfolding drain_undecodable [OF Inl] using Inl
      by (simp add: deletes_simps sends_simps)
  next
    case (Inr task)
    show ?thesis
      unfolding drain_blocked [OF Inr] using Inr
      by (simp add: deletes_simps sends_simps)
  qed
qed

lemma checkQueue_drains_when_received:
  assumes "length (decoded wd (Nodes node)) \<le> ready"
  shows "fst (checkQueue wd m ready (Inr node)) = Return None \<and>
         hd (snd (checkQueue wd m ready (Inr node))) = Kapi (Kapi_Get (queueDir m) True True) \<and>
         deletes (snd (checkQueue wd m ready (Inr node))) = map Key (Nodes node) \<and>
         sends (snd (checkQueue wd m ready (Inr node))) = decoded wd (Nodes node) \<and>
         delete_precedes_send wd (Nodes node) (snd (checkQueue wd m ready (Inr node)))"
proof (cases "Nodes node = []")
  case True
  then show ?thesis
    by (simp add: checkQueue_def deletes_def sends_def decoded_def delete_precedes_send_def)
next
  case False
  let ?head = "[Kapi (Kapi_Get (queueDir m) True True),
                Log (''Found '' @ decimal (length (Nodes node)) @ '' tasks in backlog'')]"
  let ?d = "drain_backlog wd ready (Nodes node)"
  note d = drain_backlog_received [OF assms]
  have evs: "checkQueue wd m ready (Inr node) = (Return None, ?head @ snd ?d)"
    using False d by (simp add: checkQueue_def Let_def case_prod_beta)
  have h: "delete_precedes_send wd (Nodes node) ?head"
    by (auto simp: delete_precedes_send_def less_Suc_eq)
  have order: "delete_precedes_send wd (Nodes node) (?head @ snd ?d)"
    using h d by (intro delete_precedes_send_append) simp_all
  show ?thesis
    unfolding evs using order d
    by (simp add: deletes_simps sends_simps deletes_append sends_append del: append.simps)
qed

lemma Serve_checkQueue_blocks:
  assumes "decoded wd (Nodes node) \<noteq> []"
  shows "fst (Serve_checkQueue wd m (Inr node)) = NoReturn \<and>
         sends (snd (Serve_checkQueue wd m (Inr node))) = [] \<and>
         deletes (snd (Serve_checkQueue wd m (Inr node))) = map Key (until_decoded wd (Nodes node))"
proof -
  have ne: "Nodes node \<noteq> []" using assms by (auto simp: decoded_def)
  note d = drain_backlog_blocks [OF assms]
  let ?d = "drain_backlog wd 0 (Nodes node)"
  have "Serve_checkQueue wd m (Inr node) =
      (NoReturn,
       [Kapi (Kapi_Get (queueDir m) True True),
        Log (''Found '' @ decimal (length (Nodes node)) @ '' tasks in backlog'')] @ snd ?d)"
    using ne d by (simp add: Serve_checkQueue_def checkQueue_def Let_def case_prod_beta)
  then show ?thesis using d by (simp add: deletes_simps sends_simps)
qed

text \<open>
  Claim C7. With a receiver for every task the backlog drain does what the claim says
  (\<open>checkQueue_drains_when_received\<close>): the queue is listed recursively and sorted, each
  entry is deleted and its task sent right after, an entry that does not decode is
  deleted and skipped. But \<^verbatim>\<open>Serve\<close> calls \<^verbatim>\<open>checkQueue\<close> on its unbuffered channel
  before it starts the task runner, so no receiver is there
  (\<open>Serve_checkQueue_blocks\<close>): on a queue of two tasks the first is deleted, the send
  of line 127 blocks for ever, nothing is published and the second task stays in the
  queue. The same call with a receiver for two sends drains both.
\<close>

theorem Serve_checkQueue_blocks_on_backlog:
  "Serve_checkQueue test_world test_minion (Inr backlog_node) =
     (NoReturn,
      [Kapi (Kapi_Get ''/gru/minion/id/queue'' True True),
       Log ''Found 2 tasks in backlog'',
       Kapi (Kapi_Delete ''/gru/minion/id/queue/t1'')]) \<and>
   checkQueue test_world test_minion 2 (Inr backlog_node) =
     (Return None,
      [Kapi (Kapi_Get ''/gru/minion/id/queue'' True True),
       Log ''Found 2 tasks in backlog'',
       Kapi (Kapi_Delete ''/gru/minion/id/queue/t1''), Send (Some echo_task),
       Kapi (Kapi_Delete ''/gru/minion/id/queue/t2''), Send (Some echo_task)])"
  by code_simp

lemma not_delete_simps:
  "not_delete [] = []"
  "not_delete (Inl err # rs) = Inl err # not_delete rs"
  "not_delete (Inr resp # rs) = (if is_delete resp then not_delete rs else Inr resp # not_delete rs)"
  by (simp_all add: not_delete_def)

lemma listen_Inr:
  "listen wd (Inr resp # rest) =
     (if is_delete resp then listen wd rest
      else (case json_Unmarshal wd (Value (Node resp)) of
              Inl err \<Rightarrow> [Log (''Invalid task '' @ Key (Node resp) @ '': '' @ err @ ''\<newline>''),
                          Kapi (Kapi_Delete (Key (Node resp)))] @ listen wd rest
            | Inr None \<Rightarrow> [Kapi (Kapi_Delete (Key (Node resp))), NilDereference]
            | Inr (Some task) \<Rightarrow>
                [Kapi (Kapi_Delete (Key (Node resp))),
                 Log (''Received task '' @ TaskID task @ ''\<newline>''),
                 Send (Some task)] @ listen wd rest))"
  by (simp add: is_delete_def Let_def EtcdUnmarshalTask_def split: sum.splits option.splits)

lemma listen_not_delete: "listen wd (not_delete results) = listen wd results"
proof (induction results)
  case Nil
  then show ?case by (simp add: not_delete_simps)
next
  case (Cons r results)
  show ?case
  proof (cases r)
    case (Inl err)
    then show ?thesis using Cons.IH by (simp add: not_delete_simps)
  next
    case (Inr resp)
    then show ?thesis using Cons.IH
      by (simp add: not_delete_simps listen_Inr del: listen.simps split: sum.splits option.splits)
  qed
qed

lemma delete_precedes_publish_append:
  assumes "delete_precedes_publish wd rs xs" "delete_precedes_publish wd rs ys"
  shows "delete_precedes_publish wd rs (xs @ ys)"
  unfolding delete_precedes_publish_def
proof (intro allI impI)
  fix i task
  assume i: "i < length (xs @ ys)" and s: "(xs @ ys) ! i = Send task"
  show "2 \<le> i \<and> (\<exists>resp. Inr resp \<in> set rs \<and> \<not> is_delete resp \<and>
           json_Unmarshal wd (Value (Node resp)) = Inr task \<and>
           (xs @ ys) ! (i - 2) = Kapi (Kapi_Delete (Key (Node resp))))"
  proof (cases "i < length xs")
    case True
    then have "xs ! i = Send task" using s by (simp add: nth_append)
    with assms(1) True obtain resp where "2 \<le> i" "Inr resp \<in> set rs" "\<not> is_delete resp"
      "json_Unmarshal wd (Value (Node resp)) = Inr task"
      "xs ! (i - 2) = Kapi (Kapi_Delete (Key (Node resp)))"
      unfolding delete_precedes_publish_def by blast
    then show ?thesis using True by (auto simp: nth_append)
  next
    case False
    let ?j = "i - length xs"
    have j: "?j < length ys" using i False by simp
    have "ys ! ?j = Send task" using s False by (simp add: nth_append)
    with assms(2) j obtain resp where n: "2 \<le> ?j" "Inr resp \<in> set rs" "\<not> is_delete resp"
      "json_Unmarshal wd (Value (Node resp)) = Inr task"
      "ys ! (?j - 2) = Kapi (Kapi_Delete (Key (Node resp)))"
      unfolding delete_precedes_publish_def by blast
    have "\<not> i - 2 < length xs" and "i - 2 - length xs = ?j - 2" using n(1) by arith+
    then have "(xs @ ys) ! (i - 2) = ys ! (?j - 2)" by (simp only: nth_append if_False)
    then show ?thesis using n by auto
  qed
qed

lemma delete_precedes_publish_mono:
  "delete_precedes_publish wd rs xs \<Longrightarrow> set rs \<subseteq> set rs' \<Longrightarrow> delete_precedes_publish wd rs' xs"
  unfolding delete_precedes_publish_def by blast

lemma delete_precedes_publish_no_send:
  "\<forall>e \<in> set xs. \<forall>task. e \<noteq> Send task \<Longrightarrow> delete_precedes_publish wd rs xs"
  unfolding delete_precedes_publish_def by (metis nth_mem)

lemma listen_published:
  assumes "\<not> is_delete resp" "json_Unmarshal wd (Value (Node resp)) = Inr (Some task)"
  shows "listen wd (Inr resp # rest) =
           [Kapi (Kapi_Delete (Key (Node resp))),
            Log (''Received task '' @ TaskID task @ ''\<newline>''),
            Send (Some task)] @ listen wd rest"
  using assms by (simp add: listen_Inr del: listen.simps)

lemma listen_order: "delete_precedes_publish wd results (listen wd results)"
proof (induction results)
  case Nil
  then show ?case by (simp add: delete_precedes_publish_def)
next
  case (Cons r results)
  have rest: "delete_precedes_publish wd (r # results) (listen wd results)"
    using Cons.IH by (rule delete_precedes_publish_mono) auto
  show ?case
  proof (cases r)
    case (Inl err)
    have "delete_precedes_publish wd (r # results) [Log (''Failed to read task: '' @ err @ ''\<newline>'')]"
      by (rule delete_precedes_publish_no_send) simp
    from delete_precedes_publish_append [OF this rest] show ?thesis using Inl by simp
  next
    case (Inr resp)
    show ?thesis
    proof (cases "is_delete resp")
      case True
      then show ?thesis using Inr rest by (simp add: listen_Inr del: listen.simps)
    next
      case False
      show ?thesis
      proof (cases "json_Unmarshal wd (Value (Node resp))")
        case (Inl err)
        have "delete_precedes_publish wd (r # results)
            [Log (''Invalid task '' @ Key (Node resp) @ '': '' @ err @ ''\<newline>''),
             Kapi (Kapi_Delete (Key (Node resp)))]"
          by (rule delete_precedes_publish_no_send) simp
        from delete_precedes_publish_append [OF this rest] show ?thesis
          using Inr False Inl by (simp add: listen_Inr del: listen.simps)
      next
        case unm: (Inr ptr)
        show ?thesis
        proof (cases ptr)
          case None
          have "delete_precedes_publish wd (r # results)
              [Kapi (Kapi_Delete (Key (Node resp))), NilDereference]"
            by (rule delete_precedes_publish_no_send) simp
          then show ?thesis
            using Inr False unm None by (simp add: listen_Inr del: listen.simps)
        next
          case (Some task)
          have "delete_precedes_publish wd (r # results)
              [Kapi (Kapi_Delete (Key (Node resp))),
               Log (''Received task '' @ TaskID task @ ''\<newline>''), Send (Some task)]"
            unfolding delete_precedes_publish_def
            using Inr False unm Some by (auto simp: less_Suc_eq numeral_2_eq_2)
          from delete_precedes_publish_append [OF this rest] show ?thesis
            using Inr listen_published [OF False, of wd task results] unm Some by simp
        qed
      qed
    qed
  qed
qed

lemma no_nil_task_simps:
  "no_nil_task wd [] = True"
  "no_nil_task wd (Inl err # rs) = no_nil_task wd rs"
  "no_nil_task wd (Inr resp # rs) =
     ((is_delete resp \<or> json_Unmarshal wd (Value (Node resp)) \<noteq> Inr None) \<and> no_nil_task wd rs)"
  by (simp_all add: no_nil_task_def)

lemma handled_keys_simps:
  "handled_keys [] = []"
  "handled_keys (Inl err # rs) = handled_keys rs"
  "handled_keys (Inr resp # rs) =
     (if is_delete resp then handled_keys rs else Key (Node resp) # handled_keys rs)"
  by (simp_all add: handled_keys_def)

lemma handled_tasks_simps:
  "handled_tasks wd [] = []"
  "handled_tasks wd (Inl err # rs) = handled_tasks wd rs"
  "handled_tasks wd (Inr resp # rs) =
     (if is_delete resp then handled_tasks wd rs
      else (case json_Unmarshal wd (Value (Node resp)) of
              Inl err \<Rightarrow> []
            | Inr task \<Rightarrow> [task]) @ handled_tasks wd rs)"
  by (simp_all add: handled_tasks_def)

text \<open>
  When no response decodes to a nil task, the key of every response that is not a
  delete is deleted, and the tasks sent are those the responses decode to.
\<close>

lemma listen_deletes:
  "no_nil_task wd results \<Longrightarrow> deletes (listen wd results) = handled_keys results"
proof (induction results)
  case Nil
  then show ?case by (simp add: deletes_simps handled_keys_simps)
next
  case (Cons r results)
  show ?case
  proof (cases r)
    case (Inl err)
    then show ?thesis using Cons
      by (simp add: deletes_simps handled_keys_simps no_nil_task_simps)
  next
    case (Inr resp)
    show ?thesis
    proof (cases "is_delete resp")
      case True
      then show ?thesis using Inr Cons
        by (simp add: listen_Inr handled_keys_simps no_nil_task_simps del: listen.simps)
    next
      case False
      then have ih: "deletes (listen wd results) = handled_keys results"
        and nn: "json_Unmarshal wd (Value (Node resp)) \<noteq> Inr None"
        using Inr Cons by (simp_all add: no_nil_task_simps)
      show ?thesis
      proof (cases "json_Unmarshal wd (Value (Node resp))")
        case (Inl err)
        then show ?thesis using Inr False ih
          by (simp add: listen_Inr handled_keys_simps deletes_simps del: listen.simps)
      next
        case unm: (Inr ptr)
        then obtain task where "ptr = Some task" using nn by (cases ptr) simp_all
        then show ?thesis using Inr False ih unm
          by (simp add: listen_Inr handled_keys_simps deletes_simps del: listen.simps)
      qed
    qed
  qed
qed

lemma listen_sends:
  "no_nil_task wd results \<Longrightarrow> sends (listen wd results) = handled_tasks wd results"
proof (induction results)
  case Nil
  then show ?case by (simp add: sends_simps handled_tasks_simps)
next
  case (Cons r results)
  show ?case
  proof (cases r)
    case (Inl err)
    then show ?thesis using Cons
      by (simp add: sends_simps handled_tasks_simps no_nil_task_simps)
  next
    case (Inr resp)
    show ?thesis
    proof (cases "is_delete resp")
      case True
      then show ?thesis using Inr Cons
        by (simp add: listen_Inr handled_tasks_simps no_nil_task_simps del: listen.simps)
    next
      case False
      then have ih: "sends (listen wd results) = handled_tasks wd results"
        and nn: "json_Unmarshal wd (Value (Node resp)) \<noteq> Inr None"
        using Inr Cons by (simp_all add: no_nil_task_simps)
      show ?thesis
      proof (cases "json_Unmarshal wd (Value (Node resp))")
        case (Inl err)
        then show ?thesis using Inr False ih
          by (simp add: listen_Inr handled_tasks_simps sends_simps del: listen.simps)
      next
        case unm: (Inr ptr)
        then obtain task where "ptr = Some task" using nn by (cases ptr) simp_all
        then show ?thesis using Inr False ih unm
          by (simp add: listen_Inr handled_tasks_simps sends_simps del: listen.simps)
      qed
    qed
  qed
qed

text \<open>
  A response that is not a delete and decodes to a nil task: its key is deleted, line
  291 panics, and the listener handles nothing after it.
\<close>

lemma listen_nil_task:
  assumes "\<not> is_delete resp" "json_Unmarshal wd (Value (Node resp)) = Inr None"
  shows "listen wd (Inr resp # rest) = [Kapi (Kapi_Delete (Key (Node resp))), NilDereference]"
  using assms by (simp add: listen_Inr del: listen.simps)

text \<open>
  Claim C8, as the code has it. As long as no response decodes to a nil task, the
  listener skips exactly the responses whose action is \<open>delete\<close> in any letter case: the
  events are those of the results without such responses. Of every other response,
  whatever its action, the key is deleted, whether it decodes or not, also after an
  error of the watch; the tasks sent are those these responses decode to, in their
  order; and every send comes after the deletion of the key of the response that
  decoded to the task, with the line of the log between them.
\<close>

theorem TaskListener_skips_only_delete:
  assumes "no_nil_task wd results"
  shows "TaskListener wd m (not_delete results) = TaskListener wd m results \<and>
         deletes (TaskListener wd m results) = handled_keys results \<and>
         sends (TaskListener wd m results) = handled_tasks wd results \<and>
         delete_precedes_publish wd results (TaskListener wd m results)"
proof -
  have w: "delete_precedes_publish wd results [Kapi (Kapi_Watcher (queueDir m) True)]"
    by (rule delete_precedes_publish_no_send) simp
  have "delete_precedes_publish wd results ([Kapi (Kapi_Watcher (queueDir m) True)] @ listen wd results)"
    using w listen_order by (rule delete_precedes_publish_append)
  then show ?thesis
    using listen_not_delete [of wd results] listen_deletes [OF assms] listen_sends [OF assms]
    by (simp add: TaskListener_def deletes_simps sends_simps)
qed

text \<open>
  A \<open>delete\<close> response, an error of the watch, a \<open>set\<close> response that does not decode and
  a \<open>create\<close> response that holds a task: the first leaves no event, the keys of the
  last two are deleted, and the task of the last is published after its deletion.
\<close>

theorem TaskListener_skips_only_delete_witness:
  "no_nil_task test_world [Inr deleted, Inl ''timeout'', Inr garbled, Inr created] \<and>
   TaskListener test_world test_minion [Inl ''timeout'', Inr garbled, Inr created] =
     TaskListener test_world test_minion [Inr deleted, Inl ''timeout'', Inr garbled, Inr created] \<and>
   deletes (TaskListener test_world test_minion [Inr deleted, Inl ''timeout'', Inr garbled, Inr created]) =
     [''/gru/minion/id/queue/t0'', ''/gru/minion/id/queue/t1''] \<and>
   sends (TaskListener test_world test_minion [Inr deleted, Inl ''timeout'', Inr garbled, Inr created]) =
     [Some echo_task] \<and>
   TaskListener test_world test_minion [Inr deleted, Inl ''timeout'', Inr garbled, Inr created] ! 6 =
     Send (Some echo_task) \<and>
   TaskListener test_world test_minion [Inr deleted, Inl ''timeout'', Inr garbled, Inr created] ! 4 =
     Kapi (Kapi_Delete ''/gru/minion/id/queue/t1'')"
proof -
  let ?rs = "[Inr deleted, Inl ''timeout'', Inr garbled, Inr created]"
  let ?evs = "TaskListener test_world test_minion ?rs"
  have nn: "no_nil_task test_world ?rs" by code_simp
  have nd: "not_delete ?rs = [Inl ''timeout'', Inr garbled, Inr created]" by code_simp
  have hk: "handled_keys ?rs = [''/gru/minion/id/queue/t0'', ''/gru/minion/id/queue/t1'']"
    by code_simp
  have ht: "handled_tasks test_world ?rs = [Some echo_task]" by code_simp
  have len: "6 < length ?evs" by code_simp
  have at: "?evs ! 6 = Send (Some echo_task)" by code_simp
  note inst = TaskListener_skips_only_delete [OF nn, of test_minion]
  from inst have a: "TaskListener test_world test_minion [Inl ''timeout'', Inr garbled, Inr created] = ?evs"
    by (simp only: nd)
  from inst have b: "deletes ?evs = [''/gru/minion/id/queue/t0'', ''/gru/minion/id/queue/t1'']"
    by (simp only: hk)
  from inst have c: "sends ?evs = [Some echo_task]" by (simp only: ht)
  from inst have "delete_precedes_publish test_world ?rs ?evs" by blast
  with len at obtain resp where resp: "Inr resp \<in> set ?rs" "\<not> is_delete resp"
    "json_Unmarshal test_world (Value (Node resp)) = Inr (Some echo_task)"
    "?evs ! (6 - 2) = Kapi (Kapi_Delete (Key (Node resp)))"
    unfolding delete_precedes_publish_def by blast
  have g: "json_Unmarshal test_world (Value (Node garbled)) = Inl ''invalid character''"
    by code_simp
  have d: "is_delete deleted" by code_simp
  from resp(1,2,3) g d have "resp = created" by auto
  then have "Key (Node resp) = ''/gru/minion/id/queue/t1''" by (simp add: created_def)
  with resp(4) have e: "?evs ! 4 = Kapi (Kapi_Delete ''/gru/minion/id/queue/t1'')" by simp
  show ?thesis using nn a b c at e by simp
qed

text \<open>
  A \<open>set\<close> response whose value is the document \<^verbatim>\<open>null\<close>: its key is deleted, the
  listener panics, and the \<open>create\<close> response behind it is not handled.
\<close>

lemma TaskListener_null_panics:
  "TaskListener test_world test_minion [Inr null_set, Inr created] =
     [Kapi (Kapi_Watcher ''/gru/minion/id/queue'' True),
      Kapi (Kapi_Delete ''/gru/minion/id/queue/t9''),
      NilDereference]"
  by code_simp

text \<open>
  The claim as it was stated fails on the events that are neither \<open>set\<close> nor \<open>delete\<close>:
  the action \<open>create\<close> is not \<open>set\<close>, and its task is decoded and published.
\<close>

theorem TaskListener_publishes_created:
  "\<not> EqualFold (ToLower (Action created)) ''set'' \<and>
   TaskListener test_world test_minion [Inr created] =
     [Kapi (Kapi_Watcher ''/gru/minion/id/queue'' True),
      Kapi (Kapi_Delete ''/gru/minion/id/queue/t1''),
      Log ''Received task 6ba7b810-9dad-11d1-80b4-00c04fd430c8\<newline>'',
      Send (Some echo_task)]"
  by code_simp

lemma saveTask_events:
  "snd (saveTask wd m t) =
     (case json_Marshal_task wd t of
        Inl err \<Rightarrow> [Log (''Failed to serialize task '' @ TaskID t @ '': '' @ err @ ''\<newline>'')]
      | Inr data \<Rightarrow>
          Kapi (Kapi_Set (filepath_Join wd (logDir m) (TaskID t)) data PrevIgnore 0) #
          (case kapi_Set_error wd (filepath_Join wd (logDir m) (TaskID t)) data of
             None \<Rightarrow> []
           | Some err \<Rightarrow> [Log (''Failed to save task '' @ TaskID t @ '': '' @ err @ ''\<newline>'')]))"
  by (simp add: saveTask_def Let_def split: sum.splits option.splits)

lemma processTask_unfold:
  "\<exists>l. processTask wd m t =
     (snd (cmd_Run wd (Command t) (Args t)),
      [Log (''Processing task '' @ TaskID t @ ''\<newline>''), Exec (Command t) (Args t), l] @
      snd (saveTask wd m (processed wd t)),
      processed wd t)"
proof (cases "cmd_Run wd (Command t) (Args t)")
  case (Pair out cmdError)
  then show ?thesis
    by (cases cmdError) (simp_all add: processTask_def processed_def Let_def)
qed

text \<open>
  Claim C9, as the code has it. Whether the child command succeeds or fails,
  \<open>processTask\<close> returns the command's error and leaves the task with \<open>TimeProcessed\<close>
  stamped, \<open>Result\<close> holding the merged output, and \<open>Error\<close> holding the child's error
  string when the command failed; when it succeeded \<open>Error\<close> is left as it was received
  (empty when the task arrived with an empty \<open>Error\<close>). The task so changed is then
  serialized, and when the serialization succeeds it is written under the log directory
  of the minion, keyed by \<open>TaskID\<close>.
\<close>

theorem processTask_saves_whatever_the_outcome:
  "fst (processTask wd m t) = snd (cmd_Run wd (Command t) (Args t)) \<and>
   TimeProcessed (snd (snd (processTask wd m t))) = time_Now wd \<and>
   Result (snd (snd (processTask wd m t))) = fst (cmd_Run wd (Command t) (Args t)) \<and>
   (\<forall>e. snd (cmd_Run wd (Command t) (Args t)) = Some e \<longrightarrow>
      Error (snd (snd (processTask wd m t))) = e) \<and>
   (snd (cmd_Run wd (Command t) (Args t)) = None \<longrightarrow>
      Error (snd (snd (processTask wd m t))) = Error t) \<and>
   TaskID (snd (snd (processTask wd m t))) = TaskID t \<and>
   (\<forall>data. json_Marshal_task wd (snd (snd (processTask wd m t))) = Inr data \<longrightarrow>
      3 < length (fst (snd (processTask wd m t))) \<and>
      fst (snd (processTask wd m t)) ! 3 =
        Kapi (Kapi_Set (filepath_Join wd (logDir m) (TaskID t)) data PrevIgnore 0))"
proof -
  obtain l where p: "processTask wd m t =
     (snd (cmd_Run wd (Command t) (Args t)),
      [Log (''Processing task '' @ TaskID t @ ''\<newline>''), Exec (Command t) (Args t), l] @
      snd (saveTask wd m (processed wd t)),
      processed wd t)"
    using processTask_unfold by blast
  have id: "TaskID (processed wd t) = TaskID t"
    and tp: "TimeProcessed (processed wd t) = time_Now wd"
    and res: "Result (processed wd t) = fst (cmd_Run wd (Command t) (Args t))"
    by (simp_all add: processed_def)
  have failed: "Error (processed wd t) = e" if "snd (cmd_Run wd (Command t) (Args t)) = Some e" for e
    using that by (simp add: processed_def)
  have succeeded: "Error (processed wd t) = Error t" if "snd (cmd_Run wd (Command t) (Args t)) = None"
    using that by (simp add: processed_def)
  show ?thesis
    unfolding p saveTask_events using id tp res failed succeeded by simp
qed

text \<open>
  A task whose command fails: \<open>Error\<close> holds the child's error string, and the task is
  written to the log all the same. A task that arrives with an empty \<open>Error\<close> and whose
  command succeeds: \<open>Error\<close> stays empty.
\<close>

theorem processTask_saves_whatever_the_outcome_witness:
  "snd (cmd_Run test_world ''false'' []) = Some ''exit status 1'' \<and>
   fst (processTask test_world test_minion (echo_task\<lparr>Command := ''false'', Args := []\<rparr>)) =
     Some ''exit status 1'' \<and>
   Error (snd (snd (processTask test_world test_minion (echo_task\<lparr>Command := ''false'', Args := []\<rparr>)))) =
     ''exit status 1'' \<and>
   json_Marshal_task test_world
       (snd (snd (processTask test_world test_minion (echo_task\<lparr>Command := ''false'', Args := []\<rparr>)))) =
     Inr ''6ba7b810-9dad-11d1-80b4-00c04fd430c8::exit status 1'' \<and>
   fst (snd (processTask test_world test_minion (echo_task\<lparr>Command := ''false'', Args := []\<rparr>))) ! 3 =
     Kapi (Kapi_Set ''/gru/minion/id/log/6ba7b810-9dad-11d1-80b4-00c04fd430c8''
             ''6ba7b810-9dad-11d1-80b4-00c04fd430c8::exit status 1'' PrevIgnore 0) \<and>
   snd (cmd_Run test_world ''echo'' [''hello'']) = None \<and>
   Error (snd (snd (processTask test_world test_minion echo_task))) = []"
proof -
  let ?t = "echo_task\<lparr>Command := ''false'', Args := []\<rparr>"
  have r: "snd (cmd_Run test_world (Command ?t) (Args ?t)) = Some ''exit status 1''"
    by (simp add: test_world_def)
  have r2: "snd (cmd_Run test_world (Command echo_task) (Args echo_task)) = None"
    by (simp add: test_world_def echo_task_def)
  have j: "json_Marshal_task test_world (snd (snd (processTask test_world test_minion ?t))) =
      Inr ''6ba7b810-9dad-11d1-80b4-00c04fd430c8::exit status 1''"
    by code_simp
  have key: "filepath_Join test_world (logDir test_minion) (TaskID ?t) =
      ''/gru/minion/id/log/6ba7b810-9dad-11d1-80b4-00c04fd430c8''"
    by (simp add: test_world_def test_minion_def echo_task_def)
  note inst = processTask_saves_whatever_the_outcome [of test_world test_minion ?t]
  note inst2 = processTask_saves_whatever_the_outcome [of test_world test_minion echo_task]
  from inst r have a: "fst (processTask test_world test_minion ?t) = Some ''exit status 1''"
    by simp
  from inst r have b: "Error (snd (snd (processTask test_world test_minion ?t))) = ''exit status 1''"
    by blast
  from inst j have "fst (snd (processTask test_world test_minion ?t)) ! 3 =
      Kapi (Kapi_Set (filepath_Join test_world (logDir test_minion) (TaskID ?t))
        ''6ba7b810-9dad-11d1-80b4-00c04fd430c8::exit status 1'' PrevIgnore 0)"
    by blast
  then have c: "fst (snd (processTask test_world test_minion ?t)) ! 3 =
      Kapi (Kapi_Set ''/gru/minion/id/log/6ba7b810-9dad-11d1-80b4-00c04fd430c8''
        ''6ba7b810-9dad-11d1-80b4-00c04fd430c8::exit status 1'' PrevIgnore 0)"
    by (simp only: key)
  from inst2 r2 have "Error (snd (snd (processTask test_world test_minion echo_task))) = Error echo_task"
    by blast
  then have d: "Error (snd (snd (processTask test_world test_minion echo_task))) = []"
    by (simp add: echo_task_def)
  have r': "snd (cmd_Run test_world ''false'' []) = Some ''exit status 1''"
    and r2': "snd (cmd_Run test_world ''echo'' [''hello'']) = None"
    by (simp_all add: test_world_def)
  show ?thesis using r' r2' j a b c d by simp
qed

text \<open>
  The claim as it was stated fails on a task that arrives with a text in \<open>Error\<close>: the
  command succeeds, and the task is logged with the text it came with.
\<close>

theorem processTask_keeps_stale_Error:
  "processTask test_world test_minion (echo_task\<lparr>Error := ''stale''\<rparr>) =
     (None,
      [Log ''Processing task 6ba7b810-9dad-11d1-80b4-00c04fd430c8\<newline>'',
       Exec ''echo'' [''hello''],
       Log ''Finished processing task 6ba7b810-9dad-11d1-80b4-00c04fd430c8\<newline>'',
       Kapi (Kapi_Set ''/gru/minion/id/log/6ba7b810-9dad-11d1-80b4-00c04fd430c8''
               ''6ba7b810-9dad-11d1-80b4-00c04fd430c8:hello:stale'' PrevIgnore 0)],
      echo_task\<lparr>TimeProcessed := 1446336000, Result := ''hello'', Error := ''stale''\<rparr>)"
  by code_simp

text \<open>
  Claim C10. \<open>SetClassifier\<close> tests only the error of \<open>GetValue\<close>: the errors of \<open>GetKey\<close>
  and \<open>GetDescription\<close> change nothing of what it does. When \<open>GetValue\<close> fails its error
  is returned and nothing is written; when it succeeds the classifier is serialized and,
  the serialization succeeding, written to the store under the classifier directory
  with a TTL of one hour.
\<close>

theorem SetClassifier_checks_GetValue_only:
  assumes "GetKey c = (key, kerr)" and "GetDescription c = (description, derr)"
    and "GetValue c = (val, verr)"
  shows "SetClassifier wd m c =
           SetClassifier wd m (c\<lparr>GetKey := (key, None), GetDescription := (description, None)\<rparr>) \<and>
         (case verr of
            Some e \<Rightarrow> SetClassifier wd m c = (Some e, [])
          | None \<Rightarrow>
              (case json_Marshal_classifier wd (NewSimpleClassifier key description val) of
                 Inl e \<Rightarrow> fst (SetClassifier wd m c) = Some e
               | Inr data \<Rightarrow>
                   fst (SetClassifier wd m c) =
                     kapi_Set_error wd (filepath_Join wd (classifierDir m) key) data \<and>
                   hd (snd (SetClassifier wd m c)) =
                     Kapi (Kapi_Set (filepath_Join wd (classifierDir m) key) data PrevIgnore Hour)))"
  using assms
  by (simp add: SetClassifier_def Let_def split: option.splits sum.splits)

text \<open>
  A classifier whose \<open>GetKey\<close> and \<open>GetDescription\<close> fail and whose \<open>GetValue\<close> succeeds
  is written to the store.
\<close>

theorem SetClassifier_checks_GetValue_only_witness:
  "GetKey flaky_classifier = (''os'', Some ''no key'') \<and>
   GetDescription flaky_classifier = (''Operating system'', Some ''no description'') \<and>
   GetValue flaky_classifier = (''linux'', None) \<and>
   fst (SetClassifier test_world test_minion flaky_classifier) = None \<and>
   hd (snd (SetClassifier test_world test_minion flaky_classifier)) =
     Kapi (Kapi_Set ''/gru/minion/id/classifier/os'' ''os=linux'' PrevIgnore Hour)"
proof -
  have k: "GetKey flaky_classifier = (''os'', Some ''no key'')"
    and d: "GetDescription flaky_classifier = (''Operating system'', Some ''no description'')"
    and v: "GetValue flaky_classifier = (''linux'', None)"
    by (simp_all add: flaky_classifier_def)
  have j: "json_Marshal_classifier test_world
      (NewSimpleClassifier ''os'' ''Operating system'' ''linux'') = Inr ''os=linux''"
    by (simp add: test_world_def NewSimpleClassifier_def)
  have key: "filepath_Join test_world (classifierDir test_minion) ''os'' =
      ''/gru/minion/id/classifier/os''"
    by (simp add: test_world_def test_minion_def)
  have ok: "kapi_Set_error test_world ''/gru/minion/id/classifier/os'' ''os=linux'' = None"
    by (simp add: test_world_def)
  from SetClassifier_checks_GetValue_only [OF k d v, of test_world test_minion, THEN conjunct2]
  have "fst (SetClassifier test_world test_minion flaky_classifier) = None \<and>
        hd (snd (SetClassifier test_world test_minion flaky_classifier)) =
          Kapi (Kapi_Set ''/gru/minion/id/classifier/os'' ''os=linux'' PrevIgnore Hour)"
    by (simp add: j key ok)
  then show ?thesis using k d v by simp
qed

end
